theory Spec2Isabelle
  imports Complex_Main "HOL-Library.Sublist"
begin

section \<open>Marker detection and rectification (\<open>src/processors/CropOnMarkers.py\<close>)\<close>

text \<open>
  The class \<open>CropOnMarkers\<close> locates four fiducial markers on a scanned sheet by template
  matching and warps the sheet onto the rectangle they span. This theory embeds its
  methods \<open>__init__\<close> (the search mode), \<open>getBestMatch\<close>, \<open>_get_centres_global\<close> and
  \<open>apply_filter\<close>.

  Conventions of the embedding.
  \<^item> A floating-point number (a correlation score, a scale factor, a coordinate of a
    centre) is the \<open>real\<close> that it denotes; NaN and the infinities do not occur. Where an
    operation of the code rounds its result (arithmetic on numpy's single-precision
    scores, comparisons of such a score with a Python float, sums of Python floats) the
    rounding is a parameter of the model, one of the last three fields of the record
    \<open>cv\<close>.
  \<^item> The image library (OpenCV, numpy) and the repository's \<open>ImageUtils\<close>, which is not
    part of the sources at hand, are parameters: a record \<open>cv\<close> of functions over an
    abstract image type \<open>'i\<close>. Their calls are assumed to return.
  \<^item> The constants of \<open>src.constants.image_processing\<close>, a module that is not part of
    the sources at hand either, are the fields of a record \<open>constants\<close>.
  \<^item> Logging, interactive display and the other effects of the methods are recorded as
    a list of events, in the order the code performs them.
  \<^item> An exception is a value \<open>Inl e\<close> or \<open>Raised e\<close>.
\<close>

subsection \<open>Errors and events\<close>

datatype error = ZeroDivisionError | ValueError | IndexError | CvError

datatype 'i event =
    Warning string
  | Error string
  | Info string
  | Show string
  | Transform 'i "(real \<times> real) list"
  | SaveImg nat 'i
  | ThresholdCircle real

subsection \<open>Correlation responses\<close>

text \<open>
  The result of \<open>cv2.matchTemplate\<close> is a two-dimensional array of scores: its shape
  and the score at every (row, column).
\<close>

record response =
  nrows :: nat
  ncols :: nat
  val :: "nat \<Rightarrow> nat \<Rightarrow> real"

definition of_rows :: "real list list \<Rightarrow> response" where
  "of_rows rs = \<lparr>nrows = length rs, ncols = (case rs of [] \<Rightarrow> 0 | r # _ \<Rightarrow> length r),
     val = (\<lambda>i j. rs ! i ! j)\<rparr>"

definition cells :: "response \<Rightarrow> (nat \<times> nat) list" where
  "cells r = List.product [0 ..< nrows r] [0 ..< ncols r]"

text \<open>
  The first cell, in row-major order, that holds the maximum: the scan keeps the cell it
  has and moves only to a strictly greater score.
\<close>

fun first_max :: "(nat \<times> nat \<Rightarrow> real) \<Rightarrow> nat \<times> nat \<Rightarrow> (nat \<times> nat) list \<Rightarrow> nat \<times> nat" where
  "first_max f b [] = b"
| "first_max f b (c # cs) = first_max f (if f b < f c then c else b) cs"

definition score_at :: "response \<Rightarrow> nat \<times> nat \<Rightarrow> real" where
  "score_at r c = val r (fst c) (snd c)"

definition argmax :: "response \<Rightarrow> (nat \<times> nat) option" where
  "argmax r = (case cells r of [] \<Rightarrow> None | c # cs \<Rightarrow> Some (first_max (score_at r) c cs))"

text \<open>\<open>res.max()\<close>: numpy raises \<open>ValueError\<close> on an array without elements.\<close>

definition res_max :: "response \<Rightarrow> error + real" where
  "res_max r = (case argmax r of None \<Rightarrow> Inl ValueError | Some c \<Rightarrow> Inr (score_at r c))"

text \<open>
  \<open>cv2.minMaxLoc(res_work)\<close>: the maximum and its location as (x, y), that is
  (column, row). OpenCV raises on an empty array.
\<close>

definition minMaxLoc :: "response \<Rightarrow> error + (real \<times> nat \<times> nat)" where
  "minMaxLoc r = (case argmax r of None \<Rightarrow> Inl CvError
     | Some c \<Rightarrow> Inr (score_at r c, snd c, fst c))"

subsection \<open>Configuration, constants and the image library\<close>

record config =
  min_matching_threshold :: real
  max_matching_variation :: real
  marker_rescale_range :: "int \<times> int"
  marker_rescale_steps :: int
  apply_erode_subtract :: bool
  search_mode :: string
  show_image_level :: int

record constants =
  height_factor :: nat
  width_factor :: nat
  DEFAULT_WHITE_COLOR :: nat
  MARKER_RECTANGLE_COLOR :: nat
  ERODE_RECT_COLOR :: nat
  NORMAL_RECT_COLOR :: nat
  DEFAULT_LINE_WIDTH :: nat

text \<open>
  The library calls of the class, over an abstract image type:
  \<^item> \<open>normalize_util img\<close> is \<open>ImageUtils.normalize_util(img)\<close>;
  \<^item> \<open>erode img\<close> is \<open>cv2.erode(img, kernel=np.ones(EROSION_PARAMS["kernel_size"]),
    iterations=EROSION_PARAMS["iterations"])\<close>;
  \<^item> \<open>subtract a b\<close> is the array difference \<open>a - b\<close>;
  \<^item> \<open>shape img\<close> is \<open>img.shape[:2]\<close>, (height, width);
  \<^item> \<open>slice img y0 y1 x0 x1\<close> is \<open>img[y0:y1, x0:x1]\<close>;
  \<^item> \<open>fill img y0 y1 x0 x1 c\<close> is the image after \<open>img[y0:y1, x0:x1] = c\<close>;
  \<^item> \<open>rescale marker s\<close> is \<open>ImageUtils.resize_util_h(marker, u_height=int(h * s))\<close>
    with \<open>h\<close> the height of the marker;
  \<^item> \<open>matchTemplate img tpl\<close> is \<open>cv2.matchTemplate(img, tpl, cv2.TM_CCOEFF_NORMED)\<close>;
  \<^item> \<open>rectangle img p q c t\<close> is \<open>cv2.rectangle(img, p, q, c, t)\<close>;
  \<^item> \<open>four_point_transform img pts\<close> is \<open>ImageUtils.four_point_transform(img, pts)\<close>;
  \<^item> \<open>f32 x\<close> is the single-precision number (\<open>np.float32\<close>) that numpy rounds the exact
    result \<open>x\<close> of an operation on single-precision numbers to;
  \<^item> \<open>f32_limit x\<close> is the value that the Python float \<open>x\<close> takes when numpy compares it
    with a single-precision score: \<open>x\<close> itself under numpy 1, \<open>f32 x\<close> under numpy 2;
  \<^item> \<open>fadd a b\<close> is the sum \<open>a + b\<close> of two Python floats, rounded to double precision.
\<close>

record 'i cv =
  normalize_util :: "'i \<Rightarrow> 'i"
  erode :: "'i \<Rightarrow> 'i"
  subtract :: "'i \<Rightarrow> 'i \<Rightarrow> 'i"
  shape :: "'i \<Rightarrow> nat \<times> nat"
  slice :: "'i \<Rightarrow> nat \<Rightarrow> nat \<Rightarrow> nat \<Rightarrow> nat \<Rightarrow> 'i"
  fill :: "'i \<Rightarrow> nat \<Rightarrow> nat \<Rightarrow> nat \<Rightarrow> nat \<Rightarrow> nat \<Rightarrow> 'i"
  rescale :: "'i \<Rightarrow> real \<Rightarrow> 'i"
  matchTemplate :: "'i \<Rightarrow> 'i \<Rightarrow> response"
  rectangle :: "'i \<Rightarrow> nat \<times> nat \<Rightarrow> nat \<times> nat \<Rightarrow> nat \<Rightarrow> nat \<Rightarrow> 'i"
  four_point_transform :: "'i \<Rightarrow> (real \<times> real) list \<Rightarrow> 'i"
  f32 :: "real \<Rightarrow> real"
  f32_limit :: "real \<Rightarrow> real"
  fadd :: "real \<Rightarrow> real \<Rightarrow> real"

subsection \<open>\<open>getBestMatch\<close>: the scale search\<close>

text \<open>Python's \<open>a // b\<close> on integers: floor division, \<open>ZeroDivisionError\<close> for \<open>b = 0\<close>.\<close>

definition py_floordiv :: "int \<Rightarrow> int \<Rightarrow> error + int" where
  "py_floordiv a b = (if b = 0 then Inl ZeroDivisionError else Inr (a div b))"

text \<open>
  \<open>np.arange(start, stop, step)\<close> on integers: \<open>ceil((stop - start) / step)\<close> elements
  \<open>start + i * step\<close>, none when that count is not positive; the division raises
  \<open>ZeroDivisionError\<close> for a zero step.
\<close>

definition np_arange :: "int \<Rightarrow> int \<Rightarrow> int \<Rightarrow> error + int list" where
  "np_arange start stop step =
     (if step = 0 then Inl ZeroDivisionError
      else Inr (map (\<lambda>i. start + int i * step) [0 ..< nat (- ((start - stop) div step))]))"

text \<open>
  The body of the loop over the percents \<open>r0\<close>. The state is \<open>(res, best_scale,
  all_max_t)\<close>; of \<open>res\<close> only whether it is still \<open>None\<close> is kept.
\<close>

fun scale_loop :: "'i cv \<Rightarrow> 'i \<Rightarrow> 'i \<Rightarrow> int list \<Rightarrow> real option \<times> real
    \<Rightarrow> error + (real option \<times> real)" where
  "scale_loop ops marker img [] st = Inr st"
| "scale_loop ops marker img (r0 # rs) (best_scale, all_max_t) =
     (let s = real_of_int r0 * 1 / 100 in
      if s = 0 then scale_loop ops marker img rs (best_scale, all_max_t)
      else
        (let rescaled_marker = rescale ops marker s;
             res = matchTemplate ops img rescaled_marker
         in case res_max res of
              Inl e \<Rightarrow> Inl e
            | Inr max_t \<Rightarrow>
                if all_max_t < max_t
                then scale_loop ops marker img rs (Some s, max_t)
                else scale_loop ops marker img rs (best_scale, all_max_t)))"


definition descent_per_step :: "config \<Rightarrow> error + int" where
  "descent_per_step cfg =
     py_floordiv (snd (marker_rescale_range cfg) - fst (marker_rescale_range cfg))
       (marker_rescale_steps cfg)"

definition tested_percents :: "config \<Rightarrow> error + int list" where
  "tested_percents cfg =
     (case descent_per_step cfg of
        Inl e \<Rightarrow> Inl e
      | Inr d \<Rightarrow> np_arange (snd (marker_rescale_range cfg)) (fst (marker_rescale_range cfg))
                  (-1 * d))"

text \<open>
  After the loop \<open>all_max_t\<close> is the integer 0 when no scale was kept, and a
  single-precision score otherwise.
\<close>

definition getBestMatch :: "'i cv \<Rightarrow> config \<Rightarrow> 'i \<Rightarrow> 'i
    \<Rightarrow> (error + (real option \<times> real)) \<times> 'i event list" where
  "getBestMatch ops cfg marker image_eroded_sub =
     (case tested_percents cfg of
        Inl e \<Rightarrow> (Inl e, [])
      | Inr percents \<Rightarrow>
          (case scale_loop ops marker image_eroded_sub percents (None, 0) of
             Inl e \<Rightarrow> (Inl e, [])
           | Inr (best_scale, all_max_t) \<Rightarrow>
               (Inr (best_scale, all_max_t),
                (if (case best_scale of
                       None \<Rightarrow> all_max_t < min_matching_threshold cfg
                     | Some _ \<Rightarrow> all_max_t < f32_limit ops (min_matching_threshold cfg))
                 then Warning ''Template matching too low! Consider rechecking preProcessors applied before this.''
                      # (if show_image_level cfg \<ge> 1 then [Show ''res''] else [])
                 else [])
                @ (if best_scale = None
                   then [Warning ''No matchings for given scaleRange:'']
                   else []))))"

subsection \<open>\<open>_get_centres_global\<close>: candidates of the whole image\<close>

text \<open>A candidate is \<open>(score, x, y)\<close>, a rectangle is \<open>(x, y, width, height)\<close>.\<close>

type_synonym candidate = "real \<times> nat \<times> nat"
type_synonym rect = "nat \<times> nat \<times> nat \<times> nat"
type_synonym centres = "(real \<times> real) list"

text \<open>
  \<open>max(1, int(w * 0.9))\<close>. The double nearest to 0.9 lies above 0.9 by less than
  \<open>3 * 10^-17\<close>, so for every width an image can have the truncated product is the
  integer part of \<open>9 * w / 10\<close>.
\<close>

definition suppress :: "nat \<Rightarrow> nat" where
  "suppress w = max 1 ((w * 9) div 10)"

text \<open>\<open>res_work[y0 : y1 + 1, x0 : x1 + 1] = 0\<close>\<close>

definition zero_window :: "response \<Rightarrow> nat \<Rightarrow> nat \<Rightarrow> nat \<Rightarrow> nat \<Rightarrow> response" where
  "zero_window r y0 y1 x0 x1 =
     r\<lparr>val := (\<lambda>i j. if y0 \<le> i \<and> i < y1 + 1 \<and> x0 \<le> j \<and> j < x1 + 1 then 0 else val r i j)\<rparr>"

text \<open>
  Lines 75 to 79: the window around the location \<open>(x, y)\<close>, clamped to the array, is set
  to zero.
\<close>

definition suppress_window :: "nat \<Rightarrow> nat \<Rightarrow> response \<Rightarrow> nat \<Rightarrow> nat \<Rightarrow> response" where
  "suppress_window suppress_x suppress_y res_work x y =
     (let x0 = nat (max 0 (int x - int suppress_x));
          y0 = nat (max 0 (int y - int suppress_y));
          x1 = nat (min (int (ncols res_work) - 1) (int x + int suppress_x));
          y1 = nat (min (int (nrows res_work) - 1) (int y + int suppress_y))
      in zero_window res_work y0 y1 x0 x1)"

text \<open>
  The loop \<open>for _ in range(max_candidates)\<close>. The first argument counts the iterations
  that remain; the state of the loop, and its result, is \<open>(res_work, candidates)\<close>.
\<close>

fun collect_candidates :: "nat \<Rightarrow> real \<Rightarrow> nat \<Rightarrow> nat \<Rightarrow> response \<Rightarrow> candidate list
    \<Rightarrow> error + (response \<times> candidate list)" where
  "collect_candidates 0 thr suppress_x suppress_y res_work candidates =
     Inr (res_work, candidates)"
| "collect_candidates (Suc n) thr suppress_x suppress_y res_work candidates =
     (case minMaxLoc res_work of
        Inl e \<Rightarrow> Inl e
      | Inr (max_val, x, y) \<Rightarrow>
          if max_val < thr then Inr (res_work, candidates)
          else collect_candidates n thr suppress_x suppress_y
                 (suppress_window suppress_x suppress_y res_work x y)
                 (candidates @ [(max_val, x, y)]))"

text \<open>\<open>itertools.combinations(xs, k)\<close>, in its order.\<close>

fun combinations :: "'a list \<Rightarrow> nat \<Rightarrow> 'a list list" where
  "combinations xs 0 = [[]]"
| "combinations [] (Suc k) = []"
| "combinations (x # xs) (Suc k) = map ((#) x) (combinations xs k) @ combinations xs (Suc k)"

definition centre_of :: "nat \<Rightarrow> nat \<Rightarrow> candidate \<Rightarrow> real \<times> real" where
  "centre_of w h c = (case c of (_, x, y) \<Rightarrow> (real x + real w / 2, real y + real h / 2))"

definition rect_of :: "nat \<Rightarrow> nat \<Rightarrow> candidate \<Rightarrow> rect" where
  "rect_of w h c = (case c of (_, x, y) \<Rightarrow> (x, y, w, h))"

text \<open>
  The area of the bounding box of the centres of a combination (lines 93 to 99): the
  array of the centres has the type \<open>float32\<close>, so its entries, the two differences and
  their product are rounded to single precision. The sum of the scores (line 100) is a
  sum of Python floats, from 0 on.
\<close>

definition combo_area :: "'i cv \<Rightarrow> nat \<Rightarrow> nat \<Rightarrow> candidate list \<Rightarrow> real" where
  "combo_area ops w h combo =
     (let xs = map (\<lambda>(_, x, y). f32 ops (real x + real w / 2)) combo;
          ys = map (\<lambda>(_, x, y). f32 ops (real y + real h / 2)) combo
      in f32 ops (f32 ops (Max (set xs) - Min (set xs)) * f32 ops (Max (set ys) - Min (set ys))))"

definition combo_score :: "'i cv \<Rightarrow> candidate list \<Rightarrow> real" where
  "combo_score ops combo = foldl (fadd ops) 0 (map fst combo)"

text \<open>The loop over the combinations; the state is \<open>(best, best_area, best_score)\<close>.\<close>

fun select_best :: "'i cv \<Rightarrow> nat \<Rightarrow> nat \<Rightarrow> candidate list list
    \<Rightarrow> (candidate list \<times> real \<times> real) option \<Rightarrow> (candidate list \<times> real \<times> real) option" where
  "select_best ops w h [] best = best"
| "select_best ops w h (combo # combos) best =
     (let area = combo_area ops w h combo; score = combo_score ops combo
      in select_best ops w h combos
           (case best of
              None \<Rightarrow> Some (combo, area, score)
            | Some (b, best_area, best_score) \<Rightarrow>
                if area > best_area \<or> (area = best_area \<and> score > best_score)
                then Some (combo, area, score)
                else Some (b, best_area, best_score)))"

definition max_candidates :: nat where
  "max_candidates = 20"

definition get_centres_global :: "'i cv \<Rightarrow> config \<Rightarrow> 'i \<Rightarrow> 'i
    \<Rightarrow> (error + (centres \<times> rect list \<times> real) option) \<times> 'i event list" where
  "get_centres_global ops cfg image_eroded_sub optimal_marker =
     (let (h, w) = shape ops optimal_marker;
          res = matchTemplate ops image_eroded_sub optimal_marker;
          suppress_x = suppress w;
          suppress_y = suppress h
      in case collect_candidates max_candidates (min_matching_threshold cfg)
                suppress_x suppress_y res [] of
           Inl e \<Rightarrow> (Inl e, [])
         | Inr (res_work, candidates) \<Rightarrow>
             if length candidates < 4
             then (Inr None,
                   Error ''Error: Not enough markers found in global search.''
                   # (if show_image_level cfg \<ge> 1
                      then [Show ''Marker search'', Show ''matchTemplate res''] else []))
             else
               (let top_k = take (min (length candidates) 12) candidates
                in case select_best ops w h (combinations top_k 4) None of
                     None \<Rightarrow> (Inr None, [])
                   | Some (best, _, _) \<Rightarrow>
                       (Inr (Some (map (centre_of w h) best, map (rect_of w h) best,
                                   combo_score ops best / 4)), [])))"

subsection \<open>\<open>__init__\<close>: the search mode\<close>

text \<open>
  Of the options of the preprocessor, the two that decide the search mode: the value
  under \<open>"searchMode"\<close>, when the key is there, and whether the value under
  \<open>"globalSearch"\<close> is truthy.
\<close>

record marker_ops =
  opt_searchMode :: "string option"
  opt_globalSearch :: bool

text \<open>\<open>str.lower()\<close> on ASCII text: the letters A to Z move to a to z.\<close>

definition lower_char :: "char \<Rightarrow> char" where
  "lower_char c =
     (let n = (of_char c :: nat) in if 65 \<le> n \<and> n \<le> 90 then char_of (n + 32) else c)"

definition lower :: "string \<Rightarrow> string" where
  "lower s = map lower_char s"

definition init_search_mode :: "marker_ops \<Rightarrow> string" where
  "init_search_mode mo =
     lower (case opt_searchMode mo of
              Some m \<Rightarrow> m
            | None \<Rightarrow> if opt_globalSearch mo then ''global'' else ''quadrants'')"

subsection \<open>\<open>apply_filter\<close>\<close>

datatype 'i outcome = Raised error | Returned "'i option"

text \<open>
  The quadrants (lines 129 to 146). The four quadrants are views of the working image, so
  they show the two white lines that are drawn after they are cut out: the model draws
  the lines first. The result is the working image, the quadrants and their origins.
\<close>

definition quadrants :: "'i cv \<Rightarrow> constants \<Rightarrow> config \<Rightarrow> 'i
    \<Rightarrow> error + ('i \<times> 'i list \<times> (nat \<times> nat) list)" where
  "quadrants ops K cfg image_eroded_sub =
     (if search_mode cfg \<notin> set [''global'', ''full'', ''all'']
      then
        (let (h1, w1) = shape ops image_eroded_sub
         in if height_factor K = 0 \<or> width_factor K = 0 then Inl ZeroDivisionError
            else
              (let midh = h1 div height_factor K;
                   midw = w1 div width_factor K;
                   origins = [(0, 0), (midw, 0), (0, midh), (midw, midh)];
                   lined = fill ops (fill ops image_eroded_sub 0 h1 midw (midw + 2)
                                       (DEFAULT_WHITE_COLOR K))
                             midh (midh + 2) 0 w1 (DEFAULT_WHITE_COLOR K)
               in Inr (lined,
                       [slice ops lined 0 midh 0 midw,
                        slice ops lined 0 midh midw w1,
                        slice ops lined midh h1 0 midw,
                        slice ops lined midh h1 midw w1],
                       origins)))
      else Inr (image_eroded_sub, [], [(0, 0), (0, 0), (0, 0), (0, 0)]))"

text \<open>
  The test of line 175 to 178 that rejects a quadrant. Both scores are single-precision
  numbers (they are \<open>res.max()\<close> of a response), so their difference is rounded to single
  precision, and the two limits are Python floats.
\<close>

definition quad_rejected :: "'i cv \<Rightarrow> config \<Rightarrow> real \<Rightarrow> real \<Rightarrow> bool" where
  "quad_rejected ops cfg all_max_t max_t \<longleftrightarrow>
     max_t < f32_limit ops (min_matching_threshold cfg)
     \<or> \<bar>f32 ops (all_max_t - max_t)\<bar> \<ge> f32_limit ops (max_matching_variation cfg)"

text \<open>
  The loop \<open>for k in range(0, 4)\<close>. The state is \<open>(centres, rects, avg_t, sum_t)\<close>;
  the result \<open>None\<close> is the \<open>return None\<close> of \<open>apply_filter\<close>, and the loop also ends
  at the \<open>break\<close> that follows a successful global search. The sum \<open>sum_t\<close> of the
  single-precision scores is rounded to single precision.
\<close>

fun quadrant_loop :: "'i cv \<Rightarrow> config \<Rightarrow> 'i \<Rightarrow> 'i \<Rightarrow> 'i list \<Rightarrow> (nat \<times> nat) list \<Rightarrow> real
    \<Rightarrow> nat \<Rightarrow> nat \<Rightarrow> nat list \<Rightarrow> centres \<times> rect list \<times> real \<times> real
    \<Rightarrow> (error + (centres \<times> rect list \<times> real \<times> real) option) \<times> 'i event list" where
  "quadrant_loop ops cfg image_eroded_sub optimal_marker quads origins all_max_t w h [] st =
     (Inr (Some st), [])"
| "quadrant_loop ops cfg image_eroded_sub optimal_marker quads origins all_max_t w h (k # ks)
       (centres, rects, avg_t, sum_t) =
     (let res = matchTemplate ops (quads ! k) optimal_marker
      in case res_max res of
           Inl e \<Rightarrow> (Inl e, [])
         | Inr max_t \<Rightarrow>
             if quad_rejected ops cfg all_max_t max_t
             then
               (if search_mode cfg \<in> set [''auto'', ''fallback'']
                then
                  (case get_centres_global ops cfg image_eroded_sub optimal_marker of
                     (Inl e, ev) \<Rightarrow> (Inl e, ev)
                   | (Inr None, ev) \<Rightarrow> (Inr None, ev)
                   | (Inr (Some (centres_g, rects_g, avg_t_g)), ev) \<Rightarrow>
                       (Inr (Some (centres_g, rects_g, avg_t_g, sum_t)), ev))
                else
                  (Inr None,
                   Error ''Error: No circle found in Quad''
                   # (if show_image_level cfg \<ge> 1
                      then [Show ''No markers'', Show ''res_Q''] else [])))
             else
               (case find (\<lambda>c. score_at res c = max_t) (cells res) of
                  None \<Rightarrow> (Inl IndexError, [])
                | Some (row, col) \<Rightarrow>
                    (let pt = (col + fst (origins ! k), row + snd (origins ! k))
                     in quadrant_loop ops cfg image_eroded_sub optimal_marker quads origins
                          all_max_t w h ks
                          (centres @ [(real (fst pt) + real w / 2, real (snd pt) + real h / 2)],
                           rects @ [(fst pt, snd pt, w, h)],
                           avg_t,
                           f32 ops (sum_t + max_t)))))"

text \<open>
  Lines 158 to 226: the centres, the rectangles and the average score, by the global
  search or by the quadrants.
\<close>

definition localize :: "'i cv \<Rightarrow> config \<Rightarrow> 'i \<Rightarrow> 'i \<Rightarrow> 'i list \<Rightarrow> (nat \<times> nat) list \<Rightarrow> real
    \<Rightarrow> (error + (centres \<times> rect list \<times> real) option) \<times> 'i event list" where
  "localize ops cfg image_eroded_sub optimal_marker quads origins all_max_t =
     (let (h, w) = shape ops optimal_marker
      in if search_mode cfg \<in> set [''global'', ''full'', ''all'']
         then get_centres_global ops cfg image_eroded_sub optimal_marker
         else
           (case quadrant_loop ops cfg image_eroded_sub optimal_marker quads origins
                   all_max_t w h [0, 1, 2, 3] ([], [], 0, 0) of
              (Inl e, ev) \<Rightarrow> (Inl e, ev)
            | (Inr None, ev) \<Rightarrow> (Inr None, ev)
            | (Inr (Some (centres, rects, avg_t, sum_t)), ev) \<Rightarrow>
                if centres \<noteq> []
                then (Inr (Some (centres, rects,
                                 if sum_t \<noteq> 0 then f32 ops (sum_t / 4) else 0)),
                      ev @ [Info ''Matching Marker:  '', Info ''Optimal Scale: ''])
                else (Inr (Some (centres, rects, avg_t)), ev)))"

text \<open>Lines 232 to 247: the rectangles, on the image and on the working image.\<close>

fun draw_rects :: "'i cv \<Rightarrow> constants \<Rightarrow> config \<Rightarrow> rect list \<Rightarrow> 'i \<times> 'i \<Rightarrow> 'i \<times> 'i" where
  "draw_rects ops K cfg [] (img, image_eroded_sub) = (img, image_eroded_sub)"
| "draw_rects ops K cfg ((x, y, rw, rh) # rects) (img, image_eroded_sub) =
     (let pt = (x, y)
      in draw_rects ops K cfg rects
           (rectangle ops img pt (x + rw, y + rh)
              (MARKER_RECTANGLE_COLOR K) (DEFAULT_LINE_WIDTH K),
            rectangle ops image_eroded_sub pt (x + rw, y + rh)
              (if apply_erode_subtract cfg then ERODE_RECT_COLOR K else NORMAL_RECT_COLOR K) 4))"

text \<open>Lines 117 to 128: the working image.\<close>

definition prepare :: "'i cv \<Rightarrow> config \<Rightarrow> 'i \<Rightarrow> 'i" where
  "prepare ops cfg img =
     normalize_util ops
       (if apply_erode_subtract cfg then img else subtract ops img (erode ops img))"

definition apply_filter :: "'i cv \<Rightarrow> constants \<Rightarrow> config \<Rightarrow> 'i \<Rightarrow> 'i
    \<Rightarrow> 'i outcome \<times> 'i event list" where
  "apply_filter ops K cfg marker img =
     (case quadrants ops K cfg (prepare ops cfg img) of
        Inl e \<Rightarrow> (Raised e, [])
      | Inr (image_eroded_sub, quads, origins) \<Rightarrow>
          (case getBestMatch ops cfg marker image_eroded_sub of
             (Inl e, ev) \<Rightarrow> (Raised e, ev)
           | (Inr (None, all_max_t), ev) \<Rightarrow>
               (Returned None, ev @ (if show_image_level cfg \<ge> 1 then [Show ''Quads''] else []))
           | (Inr (Some best_scale, all_max_t), ev) \<Rightarrow>
               (let optimal_marker = rescale ops marker best_scale
                in case localize ops cfg image_eroded_sub optimal_marker quads origins
                          all_max_t of
                     (Inl e, ev2) \<Rightarrow> (Raised e, ev @ ev2)
                   | (Inr None, ev2) \<Rightarrow> (Returned None, ev @ ev2)
                   | (Inr (Some (centres, rects, avg_t)), ev2) \<Rightarrow>
                       (let (img2, image_eroded_sub2) =
                              draw_rects ops K cfg rects (img, image_eroded_sub);
                            out = four_point_transform ops img2 centres
                        in (Returned (Some out),
                            ev @ ev2
                            @ (if avg_t \<noteq> 0 then [ThresholdCircle avg_t] else [])
                            @ [Transform img2 centres, SaveImg 2 image_eroded_sub2]
                            @ (if 2 \<le> show_image_level cfg \<and> show_image_level cfg < 4
                               then [Show ''Warped''] else []))))))"

subsection \<open>Symbolic images\<close>

text \<open>
  An instance of the image library for running the methods on concrete inputs: an image
  is the term of the library calls that made it, so two images are equal only when they
  were made the same way. The shapes and the correlation responses are given.
\<close>

datatype simg =
    Scan
  | MarkerImg
  | Normalized simg
  | Eroded simg
  | Difference simg simg
  | Slice simg nat nat nat nat
  | Filled simg nat nat nat nat nat
  | Rescaled simg real
  | Boxed simg "nat \<times> nat" "nat \<times> nat" nat nat
  | Warped simg "(real \<times> real) list"

definition sym_ops :: "(simg \<Rightarrow> nat \<times> nat) \<Rightarrow> (simg \<Rightarrow> simg \<Rightarrow> response) \<Rightarrow> simg cv" where
  "sym_ops shp mt =
     \<lparr>normalize_util = Normalized, erode = Eroded, subtract = Difference, shape = shp,
      slice = Slice, fill = Filled, rescale = Rescaled, matchTemplate = mt,
      rectangle = Boxed, four_point_transform = Warped,
      f32 = (\<lambda>x. x), f32_limit = (\<lambda>x. x), fadd = (+)\<rparr>"

text \<open>
  In \<open>sym_ops\<close> no operation rounds. Rounding to the nearest single-precision number
  (IEEE 754 binary32, ties to even) of a magnitude in the normal range, from \<open>2^-126\<close> to
  below \<open>2^128\<close>: \<open>exponent2 a\<close> is the integer part of the binary logarithm of \<open>a > 0\<close>, and
  a number of that exponent is a multiple of \<open>2^(exponent2 a - 23)\<close>.
\<close>

fun bit_length :: "nat \<Rightarrow> nat" where
  "bit_length n = (if n = 0 then 0 else Suc (bit_length (n div 2)))"

definition exponent2 :: "real \<Rightarrow> int" where
  "exponent2 a =
     (if 1 \<le> a then int (bit_length (nat \<lfloor>a\<rfloor>)) - 1
      else - int (bit_length (nat \<lceil>1 / a\<rceil> - 1)))"

definition round_half_even :: "real \<Rightarrow> int" where
  "round_half_even q =
     (let f = \<lfloor>q\<rfloor>; r = q - real_of_int f
      in if r < 1 / 2 then f else if 1 / 2 < r then f + 1 else if even f then f else f + 1)"

definition round32 :: "real \<Rightarrow> real" where
  "round32 x =
     (if x = 0 then 0
      else
        (let a = \<bar>x\<bar>;
             e = exponent2 a;
             ulp = (if 23 \<le> e then 2 ^ nat (e - 23) else 1 / 2 ^ nat (23 - e))
         in sgn x * real_of_int (round_half_even (a / ulp)) * ulp))"

text \<open>An instance with the single-precision operations of numpy 2.\<close>

definition single_precision :: "simg cv \<Rightarrow> simg cv" where
  "single_precision ops = ops\<lparr>f32 := round32, f32_limit := round32\<rparr>"

text \<open>The defaults of \<open>__init__\<close>, in quadrant mode and without display.\<close>

definition default_config :: config where
  "default_config =
     \<lparr>min_matching_threshold = 3 / 10, max_matching_variation = 41 / 100,
      marker_rescale_range = (35, 100), marker_rescale_steps = 10,
      apply_erode_subtract = True, search_mode = ''quadrants'', show_image_level = 0\<rparr>"

definition sym_constants :: constants where
  "sym_constants =
     \<lparr>height_factor = 2, width_factor = 2, DEFAULT_WHITE_COLOR = 255,
      MARKER_RECTANGLE_COLOR = 150, ERODE_RECT_COLOR = 50, NORMAL_RECT_COLOR = 155,
      DEFAULT_LINE_WIDTH = 2\<rparr>"

text \<open>
  An instance in which every image is two pixels high and two wide and every match has
  the one score \<open>t\<close>.
\<close>

definition flat_ops :: "real \<Rightarrow> simg cv" where
  "flat_ops t = sym_ops (\<lambda>_. (2, 2)) (\<lambda>_ _. of_rows [[t]])"

text \<open>
  An instance in which a match on the whole image has the response \<open>whole\<close> and a match
  on a quadrant the response \<open>quarter\<close>; the instance with one score each; and the
  working image of \<open>Scan\<close> in quadrant mode, with the two white lines.
\<close>

definition split_ops :: "(simg \<Rightarrow> nat \<times> nat) \<Rightarrow> response \<Rightarrow> response \<Rightarrow> simg cv" where
  "split_ops shp whole quarter =
     sym_ops shp (\<lambda>img _. case img of Slice _ _ _ _ _ \<Rightarrow> quarter | _ \<Rightarrow> whole)"

definition two_level_ops :: "real \<Rightarrow> real \<Rightarrow> simg cv" where
  "two_level_ops whole quarter =
     split_ops (\<lambda>_. (2, 2)) (of_rows [[whole]]) (of_rows [[quarter]])"

definition lined_scan :: simg where
  "lined_scan = Filled (Filled (Normalized Scan) 0 2 1 3 255) 1 3 0 2 255"

text \<open>
  A response of \<open>nr\<close> rows and \<open>nc\<close> columns that is zero but for the listed entries: the
  score \<open>t\<close> at column \<open>x\<close> of row \<open>y\<close> for an entry \<open>(t, x, y)\<close>.
\<close>

definition location :: "candidate \<Rightarrow> nat \<times> nat" where
  "location c = (case c of (_, x, y) \<Rightarrow> (x, y))"

definition peak_response :: "nat \<Rightarrow> nat \<Rightarrow> candidate list \<Rightarrow> response" where
  "peak_response nr nc entries =
     \<lparr>nrows = nr, ncols = nc,
      val = (\<lambda>i j. case find (\<lambda>c. location c = (j, i)) entries of
                      None \<Rightarrow> 0
                    | Some c \<Rightarrow> fst c)\<rparr>"



definition corner_peaks :: "candidate list" where
  "corner_peaks = [(9 / 10, 0, 0), (4 / 5, 2, 0), (7 / 10, 0, 2), (3 / 5, 2, 2)]"


subsection \<open>Notions of the properties\<close>

text \<open>
  Whether a location lies in the window that is suppressed around a candidate: at most
  \<open>suppress_x\<close> columns and \<open>suppress_y\<close> rows away.
\<close>

definition within_window :: "nat \<Rightarrow> nat \<Rightarrow> candidate \<Rightarrow> nat \<times> nat \<Rightarrow> bool" where
  "within_window sx sy c xy =
     (case c of (_, x, y) \<Rightarrow>
        \<bar>int (fst xy) - int x\<bar> \<le> int sx \<and> \<bar>int (snd xy) - int y\<bar> \<le> int sy)"


text \<open>The maximum response of the marker in quadrant \<open>k\<close>.\<close>

definition quad_max :: "'i cv \<Rightarrow> 'i list \<Rightarrow> 'i \<Rightarrow> nat \<Rightarrow> error + real" where
  "quad_max ops quads optimal_marker k = res_max (matchTemplate ops (quads ! k) optimal_marker)"

text \<open>
  What the loop over the quadrants makes of the result of the global search, at the
  \<open>break\<close>: the sum of the scores of the quadrants accepted so far stays in the state.
\<close>

definition lift_global :: "(error + (centres \<times> rect list \<times> real) option) \<times> 'i event list \<Rightarrow> real
    \<Rightarrow> (error + (centres \<times> rect list \<times> real \<times> real) option) \<times> 'i event list" where
  "lift_global g sum_t = (case g of
       (Inl e, ev) \<Rightarrow> (Inl e, ev)
     | (Inr None, ev) \<Rightarrow> (Inr None, ev)
     | (Inr (Some (c, r, a)), ev) \<Rightarrow> (Inr (Some (c, r, a, sum_t)), ev))"

text \<open>An image with the rectangles drawn on it, in one colour and thickness.\<close>

definition boxed :: "'i cv \<Rightarrow> nat \<Rightarrow> nat \<Rightarrow> 'i \<Rightarrow> rect list \<Rightarrow> 'i" where
  "boxed ops colour thickness img rects =
     foldl (\<lambda>i (x, y, rw, rh). rectangle ops i (x, y) (x + rw, y + rh) colour thickness)
       img rects"

text \<open>
  The three modes of search, as the specification names them: the mode that a string
  stands for.
\<close>

definition canonical_mode :: "string \<Rightarrow> string" where
  "canonical_mode m =
     (if m \<in> set [''global'', ''full'', ''all''] then ''global''
      else if m \<in> set [''auto'', ''fallback''] then ''auto''
      else ''quadrants'')"

section \<open>Properties\<close>

subsection \<open>The scale search\<close>





lemma arange_bounds:
  assumes "step < 0" "np_arange start stop step = Inr ps" "p \<in> set ps"
  shows "stop < p \<and> p \<le> start"
proof -
  from assms obtain i where i: "i < nat (- ((start - stop) div step))" "p = start + int i * step"
    by (auto simp: np_arange_def)
  have "int i * step \<le> 0" using assms(1) by (simp add: mult_nonneg_nonpos)
  moreover have "stop < start + int i * step"
  proof -
    define q where "q = (start - stop) div step"
    define r where "r = (start - stop) mod step"
    have "q \<le> - (int i + 1)" using i(1) by (simp add: q_def)
    hence "- (int i + 1) * step \<le> q * step"
      using assms(1) by (intro mult_right_mono_neg) simp_all
    hence "- (int i * step) - step \<le> q * step" by (simp add: algebra_simps)
    moreover have "start - stop = q * step + r" by (simp add: q_def r_def)
    moreover have "step < r" using assms(1) by (simp add: r_def)
    ultimately show ?thesis by linarith
  qed
  ultimately show ?thesis using i(2) by simp
qed

lemma arange_nonempty:
  assumes "step < 0" "stop < start"
  shows "\<exists>ps. np_arange start stop step = Inr (start # ps)"
proof -
  have "(start - stop) div step < 0"
    using assms by (simp add: div_neg_pos_less0 neg_imp_zdiv_neg_iff)
  then obtain n where "nat (- ((start - stop) div step)) = Suc n"
    by (metis neg_0_less_iff_less not0_implies_Suc zero_less_nat_eq less_irrefl)
  then show ?thesis using assms(1) by (simp add: np_arange_def upt_conv_Cons del: upt_Suc)
qed



text \<open>
  C3. The claim fails where the two bounds of the range are equal: the decrement
  \<open>(50 - 50) // 10\<close> is 0, not at least 1, \<open>np.arange\<close> raises \<open>ZeroDivisionError\<close> on the
  zero step, and \<open>getBestMatch\<close> ends with that exception: it evaluates no scale, and does
  not reach its warning for a range without a match.
\<close>

theorem equal_bounds_raise:
  "descent_per_step (default_config\<lparr>marker_rescale_range := (50, 50)\<rparr>) = Inr 0
   \<and> getBestMatch (flat_ops (1 / 2)) (default_config\<lparr>marker_rescale_range := (50, 50)\<rparr>)
        MarkerImg Scan = (Inl ZeroDivisionError, [])"
  by (simp add: getBestMatch_def tested_percents_def descent_per_step_def py_floordiv_def
        np_arange_def default_config_def)





subsection \<open>The global search\<close>

lemma first_max_mem: "first_max f b cs \<in> set (b # cs)"
  by (induction cs arbitrary: b) auto

lemma first_max_start: "f b \<le> f (first_max f b cs)"
proof (induction cs arbitrary: b)
  case (Cons a cs)
  show ?case
    using Cons[of a] Cons[of b] by (auto split: if_splits)
qed simp

lemma first_max_ge: "c \<in> set (b # cs) \<Longrightarrow> f c \<le> f (first_max f b cs)"
proof (induction cs arbitrary: b)
  case (Cons a cs)
  show ?case
    using Cons.prems Cons.IH[of a] Cons.IH[of b] first_max_start[of f a cs] first_max_start[of f b cs]
    by (auto split: if_splits)
qed (simp)

lemma in_cells: "(i, j) \<in> set (cells r) \<longleftrightarrow> i < nrows r \<and> j < ncols r"
  by (auto simp: cells_def)

lemma argmax_props:
  assumes "argmax r = Some c"
  shows "fst c < nrows r \<and> snd c < ncols r
     \<and> (\<forall>i<nrows r. \<forall>j<ncols r. val r i j \<le> score_at r c)"
proof -
  from assms obtain b cs where cs: "cells r = b # cs" and c: "c = first_max (score_at r) b cs"
    by (auto simp: argmax_def split: list.splits)
  have "c \<in> set (cells r)" using first_max_mem[of "score_at r" b cs] by (simp add: cs c)
  hence "fst c < nrows r \<and> snd c < ncols r" using in_cells[of "fst c" "snd c" r] by simp
  moreover have "val r i j \<le> score_at r c" if "i < nrows r" "j < ncols r" for i j
    using first_max_ge[of "(i, j)" b cs "score_at r"] that in_cells[of i j r]
    by (simp add: cs c score_at_def)
  ultimately show ?thesis by blast
qed

lemma minMaxLoc_props:
  assumes "minMaxLoc r = Inr (t, x, y)"
  shows "y < nrows r \<and> x < ncols r \<and> t = val r y x
     \<and> (\<forall>i<nrows r. \<forall>j<ncols r. val r i j \<le> t)"
  using assms argmax_props[of r "(y, x)"]
  by (auto simp: minMaxLoc_def score_at_def split: option.splits)

lemma suppress_window_shape [simp]:
  "nrows (suppress_window sx sy r x y) = nrows r" "ncols (suppress_window sx sy r x y) = ncols r"
  by (simp_all add: suppress_window_def zero_window_def Let_def)

lemma suppress_window_val:
  assumes "i < nrows r" "j < ncols r"
  shows "val (suppress_window sx sy r x y) i j
           = (if within_window sx sy (t, x, y) (j, i) then 0 else val r i j)"
  using assms by (auto simp: suppress_window_def zero_window_def Let_def within_window_def)

lemma collect_separated:
  assumes "0 < thr"
    and "collect_candidates n thr sx sy r cs = Inr (r', cs')"
    and "\<forall>c\<in>set cs. \<forall>i<nrows r. \<forall>j<ncols r. within_window sx sy c (j, i) \<longrightarrow> val r i j = 0"
    and "sorted_wrt (\<lambda>c d. \<not> within_window sx sy c (location d)) cs"
  shows "(\<forall>c\<in>set cs'. \<forall>i<nrows r. \<forall>j<ncols r. within_window sx sy c (j, i) \<longrightarrow> val r' i j = 0)
     \<and> sorted_wrt (\<lambda>c d. \<not> within_window sx sy c (location d)) cs'
     \<and> nrows r' = nrows r \<and> ncols r' = ncols r"
  using assms(2-)
proof (induction n arbitrary: r cs)
  case 0
  then show ?case by simp
next
  case (Suc n)
  from Suc.prems(1) obtain t x y where loc: "minMaxLoc r = Inr (t, x, y)"
    by (auto split: sum.splits)
  note mp = minMaxLoc_props[OF loc]
  show ?case
  proof (cases "t < thr")
    case True
    with Suc.prems loc show ?thesis by simp
  next
    case False
    let ?r = "suppress_window sx sy r x y"
    let ?cs = "cs @ [(t, x, y)]"
    from Suc.prems(1) loc False
    have run: "collect_candidates n thr sx sy ?r ?cs = Inr (r', cs')" by simp
    have pos: "0 < val r y x" using False mp assms(1) by simp
    have zero: "\<forall>c\<in>set ?cs. \<forall>i<nrows ?r. \<forall>j<ncols ?r.
        within_window sx sy c (j, i) \<longrightarrow> val ?r i j = 0"
      using Suc.prems(2) by (auto simp: suppress_window_val[where t = t])
    have "\<not> within_window sx sy c (x, y)" if "c \<in> set cs" for c
      using Suc.prems(2) that mp pos by force
    hence sep: "sorted_wrt (\<lambda>c d. \<not> within_window sx sy c (location d)) ?cs"
      using Suc.prems(3) by (simp add: sorted_wrt_append location_def)
    from Suc.IH[OF run zero sep] show ?thesis by simp
  qed
qed

lemma collect_bounds:
  assumes "collect_candidates n thr sx sy r cs = Inr (r', cs')"
  shows "length cs' \<le> length cs + n
     \<and> (\<exists>new. cs' = cs @ new \<and> (\<forall>c\<in>set new. thr \<le> fst c))
     \<and> (length cs' < length cs + n \<longrightarrow> (\<exists>m x y. minMaxLoc r' = Inr (m, x, y) \<and> m < thr))"
  using assms
proof (induction n arbitrary: r cs)
  case 0
  then show ?case by simp
next
  case (Suc n)
  from Suc.prems obtain t x y where loc: "minMaxLoc r = Inr (t, x, y)"
    by (auto split: sum.splits)
  show ?case
  proof (cases "t < thr")
    case True
    with Suc.prems loc show ?thesis by auto
  next
    case False
    with Suc.prems loc
    have run: "collect_candidates n thr sx sy (suppress_window sx sy r x y) (cs @ [(t, x, y)])
                 = Inr (r', cs')" by simp
    from Suc.IH[OF run] False show ?thesis by auto
  qed
qed


lemma combinations_subseq:
  "set (combinations xs k) = {ys. subseq ys xs \<and> length ys = k}"
proof (induction xs k rule: combinations.induct)
  case (1 xs)
  then show ?case by auto
next
  case (2 k)
  then show ?case by auto
next
  case (3 x xs k)
  show ?case
  proof (intro set_eqI iffI)
    fix ys assume "ys \<in> set (combinations (x # xs) (Suc k))"
    with 3 show "ys \<in> {ys. subseq ys (x # xs) \<and> length ys = Suc k}"
      by auto
  next
    fix ys assume "ys \<in> {ys. subseq ys (x # xs) \<and> length ys = Suc k}"
    then obtain y ys' where ys: "ys = y # ys'" "length ys' = k" "subseq (y # ys') (x # xs)"
      by (cases ys) auto
    show "ys \<in> set (combinations (x # xs) (Suc k))"
    proof (cases "y = x")
      case True
      with ys 3 show ?thesis by auto
    next
      case False
      with ys 3 show ?thesis by auto
    qed
  qed
qed

lemma select_best_props:
  assumes "select_best ops w h cs init = res"
    and "init = None \<or> (\<exists>b. init = Some (b, combo_area ops w h b, combo_score ops b))"
  shows "(res = None \<longleftrightarrow> init = None \<and> cs = [])
     \<and> (\<forall>b a s. res = Some (b, a, s) \<longrightarrow>
           a = combo_area ops w h b \<and> s = combo_score ops b
           \<and> (b \<in> set cs \<or> init = Some (b, a, s))
           \<and> (\<forall>c\<in>set cs. combo_area ops w h c \<le> a \<and> (combo_area ops w h c = a \<longrightarrow> combo_score ops c \<le> s))
           \<and> (\<forall>b0 a0 s0. init = Some (b0, a0, s0) \<longrightarrow> a0 \<le> a \<and> (a0 = a \<longrightarrow> s0 \<le> s)))"
  using assms
proof (induction cs arbitrary: init)
  case Nil
  then show ?case by auto
next
  case (Cons c cs)
  define nxt where "nxt = (case init of
              None \<Rightarrow> Some (c, combo_area ops w h c, combo_score ops c)
            | Some (b, best_area, best_score) \<Rightarrow>
                if combo_area ops w h c > best_area \<or> (combo_area ops w h c = best_area \<and> combo_score ops c > best_score)
                then Some (c, combo_area ops w h c, combo_score ops c)
                else Some (b, best_area, best_score))"
  have run: "select_best ops w h cs nxt = res"
    using Cons.prems(1) by (simp add: nxt_def Let_def)
  have ok: "nxt = None \<or> (\<exists>b. nxt = Some (b, combo_area ops w h b, combo_score ops b))"
  proof (cases init)
    case None
    then show ?thesis by (simp add: nxt_def)
  next
    case (Some t)
    with Cons.prems(2) obtain b where "init = Some (b, combo_area ops w h b, combo_score ops b)"
      by auto
    then have "nxt = Some (c, combo_area ops w h c, combo_score ops c)
        \<or> nxt = Some (b, combo_area ops w h b, combo_score ops b)"
      by (simp add: nxt_def)
    then show ?thesis by blast
  qed
  note ih = Cons.IH[OF run ok]
  have nn: "nxt \<noteq> None" by (auto simp: nxt_def split: option.splits)
  show ?case
  proof (intro conjI allI impI)
    show "(res = None) = (init = None \<and> c # cs = [])" using ih nn by simp
  next
    fix b a s assume r: "res = Some (b, a, s)"
    with ih have
      1: "a = combo_area ops w h b" "s = combo_score ops b" and
      2: "b \<in> set cs \<or> nxt = Some (b, a, s)" and
      3: "\<forall>c\<in>set cs. combo_area ops w h c \<le> a \<and> (combo_area ops w h c = a \<longrightarrow> combo_score ops c \<le> s)" and
      4: "\<forall>b0 a0 s0. nxt = Some (b0, a0, s0) \<longrightarrow> a0 \<le> a \<and> (a0 = a \<longrightarrow> s0 \<le> s)"
      by blast+
    show "a = combo_area ops w h b" "s = combo_score ops b" by fact+
    show "b \<in> set (c # cs) \<or> init = Some (b, a, s)"
      using 2 by (auto simp: nxt_def split: option.splits if_splits)
    have c_le: "combo_area ops w h c \<le> a \<and> (combo_area ops w h c = a \<longrightarrow> combo_score ops c \<le> s)"
      using 4 by (auto simp: nxt_def split: option.splits if_splits)
    with 3 show "\<forall>c\<in>set (c # cs). combo_area ops w h c \<le> a \<and> (combo_area ops w h c = a \<longrightarrow> combo_score ops c \<le> s)"
      by simp
    show "\<And>b0 a0 s0. init = Some (b0, a0, s0) \<Longrightarrow> a0 \<le> a"
      using 4 by (auto simp: nxt_def split: option.splits if_splits)
    show "\<And>b0 a0 s0. init = Some (b0, a0, s0) \<Longrightarrow> a0 = a \<Longrightarrow> s0 \<le> s"
      using 4 by (auto simp: nxt_def split: option.splits if_splits)
  qed
qed

lemma minMaxLoc_unique:
  assumes "y < nrows r" "x < ncols r"
    and "\<forall>i<nrows r. \<forall>j<ncols r. (i, j) \<noteq> (y, x) \<longrightarrow> val r i j < val r y x"
  shows "minMaxLoc r = Inr (val r y x, x, y)"
proof -
  have "(y, x) \<in> set (cells r)" using assms(1,2) by (simp add: in_cells)
  then obtain c where c: "argmax r = Some c"
    by (cases "cells r") (auto simp: argmax_def)
  note p = argmax_props[OF c]
  have "c = (y, x)"
  proof (rule ccontr)
    assume "c \<noteq> (y, x)"
    hence "(fst c, snd c) \<noteq> (y, x)" by simp
    with assms(3) p have "val r (fst c) (snd c) < val r y x" by blast
    moreover from p assms(1,2) have "val r y x \<le> score_at r c" by blast
    ultimately show False by (simp add: score_at_def)
  qed
  with c show ?thesis by (simp add: minMaxLoc_def score_at_def)
qed

lemma minMaxLoc_res_max: "minMaxLoc r = Inr (t, x, y) \<Longrightarrow> res_max r = Inr t"
  by (auto simp: minMaxLoc_def res_max_def split: option.splits)

lemma minMaxLoc_bounded:
  assumes "0 < nrows r" "0 < ncols r" "\<forall>i<nrows r. \<forall>j<ncols r. val r i j \<le> b"
  shows "\<exists>m x y. minMaxLoc r = Inr (m, x, y) \<and> m \<le> b"
proof -
  have "(0, 0) \<in> set (cells r)" using assms(1,2) by (simp add: in_cells)
  then obtain c where c: "argmax r = Some c"
    by (cases "cells r") (auto simp: argmax_def)
  from argmax_props[OF c] assms(3) have "score_at r c \<le> b"
    by (simp add: score_at_def)
  with c show ?thesis by (simp add: minMaxLoc_def)
qed

text \<open>
  The scan of a response whose positive values are peaks of decreasing scores, none in
  the window of an earlier one, and bumps, each below a peak in whose window it lies:
  the scan records the peaks, in their order.
\<close>

lemma peaks_head:
  assumes thr: "0 < thr"
    and inb: "snd (location c) < nrows r \<and> fst (location c) < ncols r"
    and sc: "thr \<le> fst c"
    and dec: "\<forall>d\<in>set ps. fst d < fst c"
    and at: "\<forall>d\<in>set (c # ps). val r (snd (location d)) (fst (location d)) = fst d"
    and rest: "\<forall>i<nrows r. \<forall>j<ncols r. (j, i) \<notin> location ` set (c # ps) \<longrightarrow>
                 val r i j \<le> 0 \<or> (\<exists>d\<in>set (c # ps). within_window sx sy d (j, i) \<and> val r i j < fst d)"
  shows "minMaxLoc r = Inr (fst c, fst (location c), snd (location c))"
proof -
  let ?x = "fst (location c)" and ?y = "snd (location c)"
  have top: "val r ?y ?x = fst c" using at by simp
  have "val r i j < val r ?y ?x" if "i < nrows r" "j < ncols r" "(i, j) \<noteq> (?y, ?x)" for i j
  proof (cases "(j, i) \<in> location ` set (c # ps)")
    case True
    then obtain d where d: "d \<in> set (c # ps)" "(j, i) = location d" by (rule imageE)
    from d(2) have ji: "j = fst (location d)" "i = snd (location d)"
      by (metis fst_conv, metis snd_conv)
    from that(3) ji have "d \<noteq> c" by auto
    with d(1) have "d \<in> set ps" by simp
    with dec at d(1) show ?thesis unfolding ji top by simp
  next
    case False
    with rest that have "val r i j \<le> 0
        \<or> (\<exists>d\<in>set (c # ps). within_window sx sy d (j, i) \<and> val r i j < fst d)"
      by blast
    moreover have "\<forall>d\<in>set (c # ps). fst d \<le> fst c" using dec by auto
    ultimately show ?thesis using thr sc by (auto simp: top)
  qed
  from minMaxLoc_unique[OF conjunct1[OF inb] conjunct2[OF inb]] this top
  show ?thesis by auto
qed

lemma scan_peaks:
  assumes thr: "0 < thr"
    and shp: "0 < nrows r" "0 < ncols r"
    and fuel: "length ps < n"
    and inb: "\<forall>c\<in>set ps. snd (location c) < nrows r \<and> fst (location c) < ncols r"
    and sc: "\<forall>c\<in>set ps. thr \<le> fst c"
    and dec: "sorted_wrt (>) (map fst ps)"
    and sep: "sorted_wrt (\<lambda>c d. \<not> within_window sx sy c (location d)) ps"
    and at: "\<forall>c\<in>set ps. val r (snd (location c)) (fst (location c)) = fst c"
    and rest: "\<forall>i<nrows r. \<forall>j<ncols r. (j, i) \<notin> location ` set ps \<longrightarrow>
                 val r i j \<le> 0 \<or> (\<exists>c\<in>set ps. within_window sx sy c (j, i) \<and> val r i j < fst c)"
  shows "\<exists>r'. collect_candidates n thr sx sy r cs = Inr (r', cs @ ps)"
  using shp fuel inb sc dec sep at rest
proof (induction ps arbitrary: r cs n)
  case Nil
  from Nil.prems(3) obtain n' where n: "n = Suc n'" by (cases n) auto
  from Nil.prems(9) have "\<forall>i<nrows r. \<forall>j<ncols r. val r i j \<le> 0" by simp
  from minMaxLoc_bounded[OF Nil.prems(1,2) this] obtain m x y where
    "minMaxLoc r = Inr (m, x, y)" "m \<le> 0" by blast
  with thr show ?case by (simp add: n)
next
  case (Cons c ps)
  from Cons.prems(3) obtain n' where n: "n = Suc n'" and fuel': "length ps < n'"
    by (cases n) auto
  obtain t x y where c: "c = (t, x, y)" by (cases c)
  have loc: "location c = (x, y)" by (simp add: c location_def)
  have dec': "\<forall>d\<in>set ps. fst d < fst c" using Cons.prems(6) by auto
  have head: "minMaxLoc r = Inr (t, x, y)"
    using peaks_head[OF thr _ _ dec' Cons.prems(8,9)] Cons.prems(4,5) by (simp add: c location_def)
  have tt: "\<not> t < thr" using Cons.prems(5) by (simp add: c)
  let ?r = "suppress_window sx sy r x y"
  have xy: "y < nrows r" "x < ncols r" using Cons.prems(4) by (simp_all add: loc)
  have at': "\<forall>d\<in>set ps. val ?r (snd (location d)) (fst (location d)) = fst d"
  proof
    fix d assume d: "d \<in> set ps"
    hence "\<not> within_window sx sy c (location d)" using Cons.prems(7) by auto
    hence "\<not> within_window sx sy (t, x, y) (fst (location d), snd (location d))"
      by (simp add: c)
    moreover have "snd (location d) < nrows r" "fst (location d) < ncols r"
      using Cons.prems(4) d by auto
    ultimately show "val ?r (snd (location d)) (fst (location d)) = fst d"
      using Cons.prems(8) d by (simp add: suppress_window_val[where t = t])
  qed
  have rest': "\<forall>i<nrows ?r. \<forall>j<ncols ?r. (j, i) \<notin> location ` set ps \<longrightarrow>
                 val ?r i j \<le> 0 \<or> (\<exists>c\<in>set ps. within_window sx sy c (j, i) \<and> val ?r i j < fst c)"
  proof (intro allI impI)
    fix i j assume i: "i < nrows ?r" and j: "j < ncols ?r" and nl: "(j, i) \<notin> location ` set ps"
    show "val ?r i j \<le> 0 \<or> (\<exists>c\<in>set ps. within_window sx sy c (j, i) \<and> val ?r i j < fst c)"
    proof (cases "within_window sx sy (t, x, y) (j, i)")
      case True
      then show ?thesis using i j by (simp add: suppress_window_val[where t = t])
    next
      case False
      hence v: "val ?r i j = val r i j" using i j by (simp add: suppress_window_val[where t = t])
      from False have "(j, i) \<noteq> (x, y)" by (auto simp: within_window_def)
      with nl have "(j, i) \<notin> location ` set (c # ps)" by (simp add: loc)
      with Cons.prems(9) i j have "val r i j \<le> 0
          \<or> (\<exists>d\<in>set (c # ps). within_window sx sy d (j, i) \<and> val r i j < fst d)"
        by simp
      with False show ?thesis unfolding v by (auto simp: c)
    qed
  qed
  from Cons.IH[of ?r n' "cs @ [c]", OF _ _ fuel' _ _ _ _ at' rest'] Cons.prems
  obtain r' where "collect_candidates n' thr sx sy ?r (cs @ [c]) = Inr (r', (cs @ [c]) @ ps)"
    by auto
  with head tt show ?case by (simp add: n c)
qed

lemma find_distinct:
  "distinct (map f xs) \<Longrightarrow> x \<in> set xs \<Longrightarrow> find (\<lambda>y. f y = f x) xs = Some x"
  by (induction xs) (auto simp: image_iff)

lemma peak_response_at:
  assumes "distinct (map location entries)" "c \<in> set entries"
  shows "val (peak_response nr nc entries) (snd (location c)) (fst (location c)) = fst c"
  using find_distinct[OF assms] by (simp add: peak_response_def)

lemma peak_response_off:
  assumes "(j, i) \<notin> location ` set entries"
  shows "val (peak_response nr nc entries) i j = 0"
proof -
  have "\<forall>c\<in>set entries. location c \<noteq> (j, i)"
    using assms by force
  hence "find (\<lambda>c. location c = (j, i)) entries = None"
    by (simp add: find_None_iff)
  then show ?thesis by (simp add: peak_response_def)
qed

lemma peak_response_rest:
  assumes dist: "distinct (map location (peaks @ bumps))"
    and bumps: "\<forall>b\<in>set bumps. fst b \<le> 0
                  \<or> (\<exists>c\<in>set peaks. within_window sx sy c (location b) \<and> fst b < fst c)"
  shows "\<forall>i<nr. \<forall>j<nc. (j, i) \<notin> location ` set peaks \<longrightarrow>
           val (peak_response nr nc (peaks @ bumps)) i j \<le> 0
           \<or> (\<exists>c\<in>set peaks. within_window sx sy c (j, i)
                 \<and> val (peak_response nr nc (peaks @ bumps)) i j < fst c)"
proof (intro allI impI)
  fix i j assume nl: "(j, i) \<notin> location ` set peaks"
  show "val (peak_response nr nc (peaks @ bumps)) i j \<le> 0
           \<or> (\<exists>c\<in>set peaks. within_window sx sy c (j, i)
                 \<and> val (peak_response nr nc (peaks @ bumps)) i j < fst c)"
  proof (cases "(j, i) \<in> location ` set bumps")
    case True
    then obtain b where b: "b \<in> set bumps" "(j, i) = location b" by (rule imageE)
    from b(2) have ji: "j = fst (location b)" "i = snd (location b)"
      by (metis fst_conv, metis snd_conv)
    have v: "val (peak_response nr nc (peaks @ bumps)) i j = fst b"
      unfolding ji using peak_response_at[OF dist, of b nr nc] b(1) by simp
    from bumps b(1) have "fst b \<le> 0
        \<or> (\<exists>c\<in>set peaks. within_window sx sy c (location b) \<and> fst b < fst c)"
      by blast
    then show ?thesis unfolding v b(2) by simp
  next
    case False
    with nl have "(j, i) \<notin> location ` set (peaks @ bumps)" by auto
    from peak_response_off[OF this] show ?thesis by simp
  qed
qed

lemma scan_peak_response:
  assumes thr: "0 < thr"
    and shp: "0 < nr" "0 < nc"
    and fuel: "length peaks < n"
    and dist: "distinct (map location (peaks @ bumps))"
    and inb: "\<forall>c\<in>set peaks. snd (location c) < nr \<and> fst (location c) < nc"
    and sc: "\<forall>c\<in>set peaks. thr \<le> fst c"
    and dec: "sorted_wrt (>) (map fst peaks)"
    and sep: "sorted_wrt (\<lambda>c d. \<not> within_window sx sy c (location d)) peaks"
    and bumps: "\<forall>b\<in>set bumps. fst b \<le> 0
                  \<or> (\<exists>c\<in>set peaks. within_window sx sy c (location b) \<and> fst b < fst c)"
  shows "\<exists>r'. collect_candidates n thr sx sy (peak_response nr nc (peaks @ bumps)) []
                 = Inr (r', peaks)"
proof -
  let ?r = "peak_response nr nc (peaks @ bumps)"
  have at: "\<forall>c\<in>set peaks. val ?r (snd (location c)) (fst (location c)) = fst c"
    using peak_response_at[OF dist] by simp
  have 1: "0 < nrows ?r" "0 < ncols ?r" using shp by (simp_all add: peak_response_def)
  have 2: "\<forall>c\<in>set peaks. snd (location c) < nrows ?r \<and> fst (location c) < ncols ?r"
    using inb by (simp add: peak_response_def)
  have 3: "\<forall>i<nrows ?r. \<forall>j<ncols ?r. (j, i) \<notin> location ` set peaks \<longrightarrow>
           val ?r i j \<le> 0 \<or> (\<exists>c\<in>set peaks. within_window sx sy c (j, i) \<and> val ?r i j < fst c)"
    using peak_response_rest[OF dist bumps, of nr nc] by (simp add: peak_response_def)
  from scan_peaks[OF thr 1 fuel 2 sc dec sep at 3, of "[]"] show ?thesis by simp
qed

lemma peak_response_max:
  assumes thr: "0 < thr"
    and dist: "distinct (map location ((c # peaks) @ bumps))"
    and inb: "snd (location c) < nr \<and> fst (location c) < nc"
    and sc: "thr \<le> fst c"
    and dec: "\<forall>d\<in>set peaks. fst d < fst c"
    and bumps: "\<forall>b\<in>set bumps. fst b \<le> 0
                  \<or> (\<exists>d\<in>set (c # peaks). within_window sx sy d (location b) \<and> fst b < fst d)"
  shows "res_max (peak_response nr nc ((c # peaks) @ bumps)) = Inr (fst c)"
proof -
  let ?r = "peak_response nr nc ((c # peaks) @ bumps)"
  have at: "\<forall>d\<in>set (c # peaks). val ?r (snd (location d)) (fst (location d)) = fst d"
    using peak_response_at[OF dist] by simp
  have 2: "snd (location c) < nrows ?r \<and> fst (location c) < ncols ?r"
    using inb by (simp add: peak_response_def)
  have 3: "\<forall>i<nrows ?r. \<forall>j<ncols ?r. (j, i) \<notin> location ` set (c # peaks) \<longrightarrow>
           val ?r i j \<le> 0
           \<or> (\<exists>d\<in>set (c # peaks). within_window sx sy d (j, i) \<and> val ?r i j < fst d)"
    using peak_response_rest[OF dist bumps, of nr nc] by (simp add: peak_response_def)
  from peaks_head[OF thr 2 sc dec at 3] show ?thesis by (rule minMaxLoc_res_max)
qed

lemma collect_step:
  "minMaxLoc r = Inr (t, x, y) \<Longrightarrow> \<not> t < thr \<Longrightarrow>
     collect_candidates (Suc n) thr sx sy r cs
       = collect_candidates n thr sx sy (suppress_window sx sy r x y) (cs @ [(t, x, y)])"
  by simp

lemma collect_stop:
  "minMaxLoc r = Inr (t, x, y) \<Longrightarrow> t < thr \<Longrightarrow>
     collect_candidates (Suc n) thr sx sy r cs = Inr (r, cs)"
  by simp

lemmas eval_response = minMaxLoc_def argmax_def cells_def score_at_def
  of_rows_def suppress_window_def zero_window_def Let_def upt_rec


lemma sorted_wrt_subseq:
  "subseq xs ys \<Longrightarrow> sorted_wrt P ys \<Longrightarrow> sorted_wrt P xs"
proof (induction rule: list_emb.induct)
  case (list_emb_Nil ys)
  then show ?case by simp
next
  case (list_emb_Cons xs ys y)
  then show ?case by simp
next
  case (list_emb_Cons2 x y xs ys)
  from list_emb_Cons2.hyps(2) have "set xs \<subseteq> set ys"
    by (auto dest: list_emb_set)
  with list_emb_Cons2 show ?case by auto
qed

lemma suppress_explicit: "suppress w = max 1 (9 * w div 10)"
  by (simp add: suppress_def mult.commute)

lemma global_best:
  assumes shp: "shape ops optimal_marker = (h, w)"
    and scan: "collect_candidates max_candidates (min_matching_threshold cfg) (suppress w)
                 (suppress h) (matchTemplate ops img optimal_marker) []
               = Inr (res_work, candidates)"
    and res: "get_centres_global ops cfg img optimal_marker
                = (Inr (Some (centres, rects, avg_t)), ev)"
  shows "\<exists>best. centres = map (centre_of w h) best \<and> rects = map (rect_of w h) best
           \<and> avg_t = combo_score ops best / 4
           \<and> best \<in> set (combinations (take 12 candidates) 4)"
proof -
  let ?top = "take (min (length candidates) 12) candidates"
  define sel where "sel = select_best ops w h (combinations ?top 4) None"
  have ge4: "\<not> length candidates < 4"
    using res shp scan by (auto simp: get_centres_global_def)
  hence top: "?top = take 12 candidates" by (simp add: min_def)
  from res shp scan ge4 have "sel \<noteq> None"
    by (auto simp: get_centres_global_def sel_def split: option.splits)
  then obtain best a s where sel: "sel = Some (best, a, s)"
    by (metis not_None_eq prod_cases3)
  from select_best_props[of ops w h "combinations ?top 4" None sel] sel
  have mem: "best \<in> set (combinations ?top 4)" by (simp add: sel_def)
  from res shp scan ge4 sel[unfolded sel_def]
  have "centres = map (centre_of w h) best \<and> rects = map (rect_of w h) best
           \<and> avg_t = combo_score ops best / 4"
    by (simp add: get_centres_global_def)
  with mem top show ?thesis by auto
qed

text \<open>
  C6. With a threshold above 0, at the end of the scan of \<open>_get_centres_global\<close> for a
  marker of height \<open>h\<close> and width \<open>w\<close>, every response value that lies, inside the array,
  at most \<open>max 1 (9 * w div 10)\<close> columns and \<open>max 1 (9 * h div 10)\<close> rows from a recorded
  candidate is zero, and no candidate lies that near to a candidate recorded before it;
  so the four markers that the global search returns are that far apart as well.
\<close>

theorem suppression_window_separates:
  assumes thr: "0 < min_matching_threshold cfg"
    and shp: "shape ops optimal_marker = (h, w)"
    and scan: "collect_candidates max_candidates (min_matching_threshold cfg) (suppress w)
                 (suppress h) (matchTemplate ops image_eroded_sub optimal_marker) []
               = Inr (res_work, candidates)"
  shows "nrows res_work = nrows (matchTemplate ops image_eroded_sub optimal_marker)
     \<and> ncols res_work = ncols (matchTemplate ops image_eroded_sub optimal_marker)
     \<and> (\<forall>c\<in>set candidates. \<forall>i<nrows res_work. \<forall>j<ncols res_work.
            within_window (max 1 (9 * w div 10)) (max 1 (9 * h div 10)) c (j, i)
            \<longrightarrow> val res_work i j = 0)
     \<and> (\<forall>a b. a < b \<and> b < length candidates \<longrightarrow>
            \<not> within_window (max 1 (9 * w div 10)) (max 1 (9 * h div 10))
                (candidates ! a) (location (candidates ! b)))
     \<and> (\<forall>centres rects avg_t ev.
            get_centres_global ops cfg image_eroded_sub optimal_marker
              = (Inr (Some (centres, rects, avg_t)), ev) \<longrightarrow>
            (\<exists>best. subseq best candidates \<and> rects = map (rect_of w h) best
               \<and> (\<forall>a b. a < b \<and> b < length best \<longrightarrow>
                     \<not> within_window (max 1 (9 * w div 10)) (max 1 (9 * h div 10))
                         (best ! a) (location (best ! b)))))"
proof -
  let ?sx = "max 1 (9 * w div 10)" and ?sy = "max 1 (9 * h div 10)"
  from collect_separated[OF thr scan]
  have zero: "\<forall>c\<in>set candidates. \<forall>i<nrows res_work. \<forall>j<ncols res_work.
            within_window ?sx ?sy c (j, i) \<longrightarrow> val res_work i j = 0"
    and sep: "sorted_wrt (\<lambda>c d. \<not> within_window ?sx ?sy c (location d)) candidates"
    and shape: "nrows res_work = nrows (matchTemplate ops image_eroded_sub optimal_marker)"
      "ncols res_work = ncols (matchTemplate ops image_eroded_sub optimal_marker)"
    by (simp_all add: suppress_explicit)
  have out: "\<exists>best. subseq best candidates \<and> rects = map (rect_of w h) best
               \<and> (\<forall>a b. a < b \<and> b < length best \<longrightarrow>
                     \<not> within_window ?sx ?sy (best ! a) (location (best ! b)))"
    if res: "get_centres_global ops cfg image_eroded_sub optimal_marker
              = (Inr (Some (centres, rects, avg_t)), ev)" for centres rects avg_t ev
  proof -
    from global_best[OF shp scan res] obtain best where
      r: "rects = map (rect_of w h) best"
      and mem: "best \<in> set (combinations (take 12 candidates) 4)"
      by blast
    from mem have "subseq best (take 12 candidates)" by (simp add: combinations_subseq)
    moreover have "subseq (take 12 candidates) candidates"
      by (simp add: prefix_imp_subseq take_is_prefix)
    ultimately have sub: "subseq best candidates" by (rule subseq_order.order_trans)
    from sorted_wrt_subseq[OF sub sep]
    have "\<forall>a b. a < b \<and> b < length best \<longrightarrow>
            \<not> within_window ?sx ?sy (best ! a) (location (best ! b))"
      by (simp add: sorted_wrt_iff_nth_less)
    with sub r show ?thesis by blast
  qed
  from zero sep shape out show ?thesis
    by (simp add: sorted_wrt_iff_nth_less)
qed

text \<open>
  A marker of 10 by 10 pixels, so a window of 9 columns and rows to each side. The
  response has five peaks that lie 10 apart and the score 0.85 five columns right of the
  first peak: the scan records the five peaks, not the score 0.85, which it sets to zero.
\<close>

theorem suppression_window_separates_witness:
  "0 < min_matching_threshold default_config
   \<and> shape (sym_ops (\<lambda>_. (10, 10)) (\<lambda>_ _. peak_response 11 21
         ([(9 / 10, 0, 0), (8 / 10, 10, 0), (7 / 10, 20, 0), (6 / 10, 0, 10), (5 / 10, 10, 10)]
          @ [(85 / 100, 5, 0)]))) MarkerImg = (10, 10)
   \<and> (\<exists>res_work.
        collect_candidates max_candidates (min_matching_threshold default_config)
          (suppress 10) (suppress 10)
          (matchTemplate (sym_ops (\<lambda>_. (10, 10)) (\<lambda>_ _. peak_response 11 21
             ([(9 / 10, 0, 0), (8 / 10, 10, 0), (7 / 10, 20, 0), (6 / 10, 0, 10), (5 / 10, 10, 10)]
              @ [(85 / 100, 5, 0)]))) Scan MarkerImg) []
        = Inr (res_work,
               [(9 / 10, 0, 0), (8 / 10, 10, 0), (7 / 10, 20, 0), (6 / 10, 0, 10), (5 / 10, 10, 10)])
        \<and> val (matchTemplate (sym_ops (\<lambda>_. (10, 10)) (\<lambda>_ _. peak_response 11 21
             ([(9 / 10, 0, 0), (8 / 10, 10, 0), (7 / 10, 20, 0), (6 / 10, 0, 10), (5 / 10, 10, 10)]
              @ [(85 / 100, 5, 0)]))) Scan MarkerImg) 0 5 = 85 / 100
        \<and> val res_work 0 5 = 0
        \<and> \<not> within_window 9 9 (9 / 10, 0, 0) (location (8 / 10, 10, 0)))"
proof -
  let ?peaks = "[(9 / 10, 0, 0), (8 / 10, 10, 0), (7 / 10, 20, 0), (6 / 10, 0, 10), (5 / 10, 10, 10)]
    :: candidate list"
  let ?bumps = "[(85 / 100, 5, 0)] :: candidate list"
  let ?ops = "sym_ops (\<lambda>_. (10, 10)) (\<lambda>_ _. peak_response 11 21 (?peaks @ ?bumps))"
  have thr: "0 < min_matching_threshold default_config" by (simp add: default_config_def)
  have shp: "shape ?ops MarkerImg = (10, 10)" by (simp add: sym_ops_def)
  have s: "suppress 10 = 9" by (simp add: suppress_def)
  have mt: "matchTemplate ?ops Scan MarkerImg = peak_response 11 21 (?peaks @ ?bumps)"
    by (simp add: sym_ops_def)
  have "\<exists>r'. collect_candidates max_candidates (min_matching_threshold default_config) 9 9
                (peak_response 11 21 (?peaks @ ?bumps)) [] = Inr (r', ?peaks)"
  proof (rule scan_peak_response[OF thr])
    show "length ?peaks < max_candidates" by (simp add: max_candidates_def)
    show "distinct (map location (?peaks @ ?bumps))" by (simp add: location_def)
    show "\<forall>c\<in>set ?peaks. snd (location c) < 11 \<and> fst (location c) < 21"
      by (simp add: location_def)
    show "\<forall>c\<in>set ?peaks. min_matching_threshold default_config \<le> fst c"
      by (simp add: default_config_def)
    show "sorted_wrt (>) (map fst ?peaks)" by simp
    show "sorted_wrt (\<lambda>c d. \<not> within_window 9 9 c (location d)) ?peaks"
      by (simp add: within_window_def location_def)
    show "\<forall>b\<in>set ?bumps. fst b \<le> 0
            \<or> (\<exists>c\<in>set ?peaks. within_window 9 9 c (location b) \<and> fst b < fst c)"
      by (simp add: within_window_def location_def)
  qed simp_all
  then obtain r' where
    scan: "collect_candidates max_candidates (min_matching_threshold default_config)
             (suppress 10) (suppress 10) (matchTemplate ?ops Scan MarkerImg) [] = Inr (r', ?peaks)"
    unfolding s mt by blast
  note sep = suppression_window_separates[OF thr shp scan]
  note rows = sep[THEN conjunct1]
  note cols = sep[THEN conjunct2, THEN conjunct1]
  note zero = sep[THEN conjunct2, THEN conjunct2, THEN conjunct1]
  note apart = sep[THEN conjunct2, THEN conjunct2, THEN conjunct2, THEN conjunct1]
  have shape: "nrows r' = 11" "ncols r' = 21"
    using rows cols unfolding mt by (simp_all add: peak_response_def)
  have "(9 / 10, 0, 0) \<in> set ?peaks" by simp
  from zero[rule_format, OF this, of 0 5] shape
  have z: "val r' 0 5 = 0" by (simp add: within_window_def)
  from apart[rule_format, of 0 1]
  have n: "\<not> within_window 9 9 (9 / 10, 0, 0) (location (8 / 10, 10, 0))" by simp
  have b: "val (matchTemplate ?ops Scan MarkerImg) 0 5 = 85 / 100"
    unfolding mt by (simp add: peak_response_def location_def)
  show ?thesis
    by (intro conjI exI[of _ r'] thr shp scan b z n)
qed

text \<open>
  C7. The scan records at most 20 candidates, each of a score that is not below the
  threshold, and when it records fewer than 20 the maximum that remains is below the
  threshold. In global mode, with fewer than 4 candidates \<open>_get_centres_global\<close> returns
  \<open>None\<close>, \<open>apply_filter\<close> returns \<open>None\<close> and never calls the perspective transform.
\<close>

theorem global_scan_bounded:
  assumes mode: "search_mode cfg \<in> set [''global'', ''full'', ''all'']"
    and best: "getBestMatch ops cfg marker (prepare ops cfg img) = (Inr (Some s, t), ev)"
    and shp: "shape ops (rescale ops marker s) = (h, w)"
    and scan: "collect_candidates max_candidates (min_matching_threshold cfg) (suppress w)
                 (suppress h) (matchTemplate ops (prepare ops cfg img) (rescale ops marker s)) []
               = Inr (res_work, candidates)"
  shows "length candidates \<le> 20
     \<and> (\<forall>c\<in>set candidates. min_matching_threshold cfg \<le> fst c)
     \<and> (length candidates < 20 \<longrightarrow>
           (\<exists>m x y. minMaxLoc res_work = Inr (m, x, y) \<and> m < min_matching_threshold cfg))
     \<and> (length candidates < 4 \<longrightarrow>
           fst (get_centres_global ops cfg (prepare ops cfg img) (rescale ops marker s)) = Inr None
           \<and> fst (apply_filter ops K cfg marker img) = Returned None
           \<and> (\<forall>i c. Transform i c \<notin> set (snd (apply_filter ops K cfg marker img))))"
proof -
  from collect_bounds[OF scan]
  have a: "length candidates \<le> 20"
    and b: "\<forall>c\<in>set candidates. min_matching_threshold cfg \<le> fst c"
    and c: "length candidates < 20 \<longrightarrow>
           (\<exists>m x y. minMaxLoc res_work = Inr (m, x, y) \<and> m < min_matching_threshold cfg)"
    by (auto simp: max_candidates_def)
  have d: "fst (get_centres_global ops cfg (prepare ops cfg img) (rescale ops marker s)) = Inr None
           \<and> fst (apply_filter ops K cfg marker img) = Returned None
           \<and> (\<forall>i c. Transform i c \<notin> set (snd (apply_filter ops K cfg marker img)))"
    if few: "length candidates < 4"
  proof -
    have g: "get_centres_global ops cfg (prepare ops cfg img) (rescale ops marker s)
          = (Inr None, Error ''Error: Not enough markers found in global search.''
                   # (if show_image_level cfg \<ge> 1
                      then [Show ''Marker search'', Show ''matchTemplate res''] else []))"
      using scan shp few by (simp add: get_centres_global_def)
    have q: "quadrants ops K cfg (prepare ops cfg img)
          = Inr (prepare ops cfg img, [], [(0, 0), (0, 0), (0, 0), (0, 0)])"
      using mode by (simp add: quadrants_def)
    have l: "localize ops cfg (prepare ops cfg img) (rescale ops marker s) []
               [(0, 0), (0, 0), (0, 0), (0, 0)] t
             = get_centres_global ops cfg (prepare ops cfg img) (rescale ops marker s)"
      using mode shp by (simp add: localize_def)
    have ev: "\<forall>i c. Transform i c \<notin> set ev"
      using best by (auto simp: getBestMatch_def split: sum.splits if_splits)
    have af: "apply_filter ops K cfg marker img
       = (Returned None, ev @ Error ''Error: Not enough markers found in global search.''
                   # (if show_image_level cfg \<ge> 1
                      then [Show ''Marker search'', Show ''matchTemplate res''] else []))"
      by (simp add: apply_filter_def q best l g)
    show ?thesis using g ev by (simp add: af)
  qed
  from a b c d show ?thesis by blast
qed

lemma tested_percents_mode:
  "tested_percents (default_config\<lparr>search_mode := m\<rparr>)
     = Inr [100, 94, 88, 82, 76, 70, 64, 58, 52, 46, 40]"
  by (simp add: tested_percents_def descent_per_step_def py_floordiv_def np_arange_def
        default_config_def upt_rec)

lemma getBestMatch_flat_mode:
  "0 < t \<Longrightarrow> getBestMatch (flat_ops t) (default_config\<lparr>search_mode := m\<rparr>) marker img
     = (Inr (Some 1, t),
        if t < 3 / 10
        then [Warning ''Template matching too low! Consider rechecking preProcessors applied before this.'']
        else [])"
  by (simp add: getBestMatch_def tested_percents_mode flat_ops_def sym_ops_def res_max_def
        argmax_def score_at_def of_rows_def cells_def)
     (simp add: default_config_def)

lemma flat_scan:
  "collect_candidates max_candidates (3 / 10) 1 1 (of_rows [[1 / 2]]) []
     = Inr (suppress_window 1 1 (of_rows [[1 / 2]]) 0 0, [(1 / 2, 0, 0)])"
proof -
  have 1: "minMaxLoc (of_rows [[1 / 2]]) = Inr (1 / 2, 0, 0)"
    by (simp add: eval_response)
  have 2: "minMaxLoc (suppress_window 1 1 (of_rows [[1 / 2]]) 0 0) = Inr (0, 0, 0)"
    by (simp add: eval_response)
  have n: "max_candidates = Suc (Suc 18)"
    by (simp add: max_candidates_def)
  show ?thesis
    unfolding n
    by (simp only: collect_step[OF 1] collect_stop[OF 2] append_Nil)
qed

text \<open>One candidate only: the single score 1/2, in global mode.\<close>

theorem global_scan_bounded_witness:
  "search_mode (default_config\<lparr>search_mode := ''global''\<rparr>) \<in> set [''global'', ''full'', ''all'']
   \<and> length [(1 / 2 :: real, 0 :: nat, 0 :: nat)] < 4
   \<and> fst (apply_filter (flat_ops (1 / 2)) sym_constants
             (default_config\<lparr>search_mode := ''global''\<rparr>) MarkerImg Scan) = Returned None
   \<and> (\<forall>i c. Transform i c \<notin> set (snd (apply_filter (flat_ops (1 / 2)) sym_constants
             (default_config\<lparr>search_mode := ''global''\<rparr>) MarkerImg Scan)))"
proof -
  let ?cfg = "default_config\<lparr>search_mode := ''global''\<rparr>"
  let ?ops = "flat_ops (1 / 2)"
  have mode: "search_mode ?cfg \<in> set [''global'', ''full'', ''all'']" by simp
  have best: "getBestMatch ?ops ?cfg MarkerImg (prepare ?ops ?cfg Scan) = (Inr (Some 1, 1 / 2), [])"
    by (simp add: getBestMatch_flat_mode)
  have shp: "shape ?ops (rescale ?ops MarkerImg 1) = (2, 2)"
    by (simp add: flat_ops_def sym_ops_def)
  have scan: "collect_candidates max_candidates (min_matching_threshold ?cfg) (suppress 2)
                 (suppress 2) (matchTemplate ?ops (prepare ?ops ?cfg Scan) (rescale ?ops MarkerImg 1)) []
               = Inr (suppress_window 1 1 (of_rows [[1 / 2]]) 0 0, [(1 / 2, 0, 0)])"
    using flat_scan by (simp add: flat_ops_def sym_ops_def suppress_def default_config_def)
  from global_scan_bounded[OF mode best shp scan, of sym_constants] mode show ?thesis
    by simp
qed









declare bit_length.simps [simp del]

lemma bit_length_0 [simp]: "bit_length 0 = 0"
  by (simp add: bit_length.simps)

lemma bit_length_eqI: "n < 2 ^ k \<Longrightarrow> 2 ^ k \<le> 2 * n \<Longrightarrow> bit_length n = k"
proof (induction k arbitrary: n)
  case 0
  then show ?case by simp
next
  case (Suc k)
  from Suc.prems have n: "n \<noteq> 0" by auto
  have lt: "n div 2 < 2 ^ k" using Suc.prems by simp
  show ?case
  proof (cases k)
    case 0
    with Suc.prems have "n = 1" by simp
    with 0 show ?thesis by (simp add: bit_length.simps[of "Suc 0"])
  next
    case (Suc j)
    with Suc.prems have "2 ^ k \<le> 2 * (n div 2)" by simp
    from Suc.IH[OF lt this] n show ?thesis by (simp add: bit_length.simps[of n])
  qed
qed

lemma exponent2_nat:
  assumes n: "n < 2 ^ k" "2 ^ k \<le> 2 * n"
  shows "exponent2 (real n) = int k - 1"
proof -
  from n have pos: "0 < n" by (cases n) auto
  have b: "bit_length n = k" by (rule bit_length_eqI[OF n])
  show ?thesis using pos by (simp add: exponent2_def b)
qed

lemma round32_exact:
  assumes n: "n < 2 ^ k" "2 ^ k \<le> 2 * n" and k: "k \<le> 24"
  shows "round32 (real n) = real n"
proof -
  from n have pos: "0 < n" by (cases n) auto
  hence k0: "0 < k" using n by (cases k) auto
  define m where "m = n * 2 ^ (24 - k)"
  define u :: real where "u = 1 / 2 ^ (24 - k)"
  have u0: "u \<noteq> 0" by (simp add: u_def)
  have e: "exponent2 \<bar>real n\<bar> = int k - 1"
    using exponent2_nat[OF n] by simp
  have ulp: "(if 23 \<le> int k - 1 then 2 ^ nat (int k - 1 - 23) else 1 / 2 ^ nat (23 - (int k - 1)))
               = u"
    using k k0 by (auto simp: nat_diff_distrib' algebra_simps u_def)
  have q: "\<bar>real n\<bar> / u = real m"
    by (simp add: m_def u_def)
  have r: "round_half_even (real m) = int m"
    unfolding round_half_even_def Let_def by simp
  have rb: "real_of_int (int m) * u = real n"
    by (simp add: m_def u_def)
  have s: "sgn (real n) = 1" "real n \<noteq> 0" using pos by simp_all
  have "round32 (real n) = sgn (real n) * real_of_int (round_half_even (\<bar>real n\<bar> / u)) * u"
    unfolding round32_def Let_def e ulp using s(2) by (simp only: if_False)
  also have "\<dots> = real n"
    unfolding q r s(1) using rb by simp
  finally show ?thesis .
qed


lemma r_small: "round32 1 = 1" "round32 2 = 2" "round32 3 = 3"
  using round32_exact[of 1 1] round32_exact[of 2 2] round32_exact[of 3 2] by simp_all




lemma single_precision_simps [simp]:
  "shape (single_precision ops) = shape ops"
  "matchTemplate (single_precision ops) = matchTemplate ops"
  "rescale (single_precision ops) = rescale ops"
  "normalize_util (single_precision ops) = normalize_util ops"
  "fadd (single_precision ops) = fadd ops"
  "f32 (single_precision ops) = round32"
  "f32_limit (single_precision ops) = round32"
  by (simp_all add: single_precision_def)







subsection \<open>The quadrants\<close>

lemma res_max_find:
  assumes "res_max r = Inr m"
  shows "\<exists>row col. find (\<lambda>c. score_at r c = m) (cells r) = Some (row, col)"
proof -
  from assms obtain c where c: "argmax r = Some c" "m = score_at r c"
    by (auto simp: res_max_def split: option.splits)
  then obtain b cs where "cells r = b # cs" "c = first_max (score_at r) b cs"
    by (auto simp: argmax_def split: list.splits)
  with first_max_mem[of "score_at r" b cs] have "c \<in> set (cells r)" by simp
  with c(2) have "find (\<lambda>c. score_at r c = m) (cells r) \<noteq> None"
    by (cases c) (auto simp: find_None_iff)
  then show ?thesis by (cases "find (\<lambda>c. score_at r c = m) (cells r)") auto
qed

lemma loop_accept_all:
  assumes "\<forall>k\<in>set ks. \<exists>m. quad_max ops quads om k = Inr m \<and> \<not> quad_rejected ops cfg t m"
  shows "\<exists>cs rs sum'. quadrant_loop ops cfg wimg om quads origins t w h ks (centres, rects, avg, sm)
            = (Inr (Some (centres @ cs, rects @ rs, avg, sum')), [])
          \<and> length cs = length ks \<and> length rs = length ks"
  using assms
proof (induction ks arbitrary: centres rects sm)
  case Nil
  then show ?case by simp
next
  case (Cons k ks)
  from Cons.prems obtain m where m: "res_max (matchTemplate ops (quads ! k) om) = Inr m"
      "\<not> quad_rejected ops cfg t m"
    by (auto simp: quad_max_def)
  from res_max_find[OF m(1)] obtain row col where
    f: "find (\<lambda>c. score_at (matchTemplate ops (quads ! k) om) c = m)
          (cells (matchTemplate ops (quads ! k) om)) = Some (row, col)"
    by blast
  define c where "c = (real (col + fst (origins ! k)) + real w / 2, real (row + snd (origins ! k)) + real h / 2)"
  define r where "r = (col + fst (origins ! k), row + snd (origins ! k), w, h)"
  have step: "quadrant_loop ops cfg wimg om quads origins t w h (k # ks) (centres, rects, avg, sm)
     = quadrant_loop ops cfg wimg om quads origins t w h ks (centres @ [c], rects @ [r], avg, f32 ops (sm + m))"
    using m f by (simp add: Let_def c_def r_def)
  from Cons.prems have "\<forall>k\<in>set ks. \<exists>m. quad_max ops quads om k = Inr m \<and> \<not> quad_rejected ops cfg t m"
    by simp
  from Cons.IH[OF this, of "centres @ [c]" "rects @ [r]" "f32 ops (sm + m)"]
  obtain cs rs sum' where
    "quadrant_loop ops cfg wimg om quads origins t w h ks (centres @ [c], rects @ [r], avg, f32 ops (sm + m))
            = (Inr (Some ((centres @ [c]) @ cs, (rects @ [r]) @ rs, avg, sum')), [])"
    "length cs = length ks" "length rs = length ks"
    by blast
  with step show ?case
    by (intro exI[of _ "c # cs"] exI[of _ "r # rs"] exI[of _ sum']) simp
qed

lemma loop_reject:
  assumes "\<forall>k\<in>set pre. \<exists>m. quad_max ops quads om k = Inr m \<and> \<not> quad_rejected ops cfg t m"
    and "quad_max ops quads om k = Inr m" "quad_rejected ops cfg t m"
  shows "\<exists>sum'. quadrant_loop ops cfg wimg om quads origins t w h (pre @ k # post) (centres, rects, avg, sm)
     = (if search_mode cfg \<in> set [''auto'', ''fallback'']
        then lift_global (get_centres_global ops cfg wimg om) sum'
        else (Inr None, Error ''Error: No circle found in Quad''
                   # (if show_image_level cfg \<ge> 1
                      then [Show ''No markers'', Show ''res_Q''] else [])))"
  using assms(1)
proof (induction pre arbitrary: centres rects sm)
  case Nil
  show ?case
    using assms(2,3)
    by (intro exI[of _ sm]) (auto simp: quad_max_def lift_global_def split: prod.splits sum.splits option.splits)
next
  case (Cons j pre)
  from Cons.prems obtain mj where m: "res_max (matchTemplate ops (quads ! j) om) = Inr mj"
      "\<not> quad_rejected ops cfg t mj"
    by (auto simp: quad_max_def)
  from res_max_find[OF m(1)] obtain row col where
    f: "find (\<lambda>c. score_at (matchTemplate ops (quads ! j) om) c = mj)
          (cells (matchTemplate ops (quads ! j) om)) = Some (row, col)"
    by blast
  define c where "c = (real (col + fst (origins ! j)) + real w / 2, real (row + snd (origins ! j)) + real h / 2)"
  define r where "r = (col + fst (origins ! j), row + snd (origins ! j), w, h)"
  have step: "quadrant_loop ops cfg wimg om quads origins t w h ((j # pre) @ k # post) (centres, rects, avg, sm)
     = quadrant_loop ops cfg wimg om quads origins t w h (pre @ k # post) (centres @ [c], rects @ [r], avg, f32 ops (sm + mj))"
    using m f by (simp add: Let_def c_def r_def)
  from Cons.prems have "\<forall>k\<in>set pre. \<exists>m. quad_max ops quads om k = Inr m \<and> \<not> quad_rejected ops cfg t m"
    by simp
  from Cons.IH[OF this, of "centres @ [c]" "rects @ [r]" "f32 ops (sm + mj)"] step
  show ?case by simp
qed

text \<open>
  C4 (as amended). In quadrant mode, when the four matches return: without fallback,
  \<open>apply_filter\<close> returns \<open>None\<close> exactly when some quadrant has a best score below the
  threshold or at a distance from the whole-image best score, computed in single
  precision, of at least the maximal variation, the two limits taken as numpy takes a
  Python float in a comparison with a single-precision score; with fallback (\<open>auto\<close>,
  \<open>fallback\<close>) such a quadrant makes the result that of the global search on the whole
  working image: its failure, or the transform of the image at its four centres.
\<close>

theorem quadrant_rejection:
  assumes prep: "quadrants ops K cfg (prepare ops cfg img) = Inr (image_eroded_sub, quads, origins)"
    and mode: "search_mode cfg \<notin> set [''global'', ''full'', ''all'']"
    and best: "getBestMatch ops cfg marker image_eroded_sub = (Inr (Some s, all_max_t), ev)"
    and resp: "\<forall>k<4. res_max (matchTemplate ops (quads ! k) (rescale ops marker s)) = Inr (max_t k)"
  shows "(search_mode cfg \<notin> set [''auto'', ''fallback''] \<longrightarrow>
           (fst (apply_filter ops K cfg marker img) = Returned None
            \<longleftrightarrow> (\<exists>k<4. max_t k < f32_limit ops (min_matching_threshold cfg)
                         \<or> \<bar>f32 ops (all_max_t - max_t k)\<bar>
                              \<ge> f32_limit ops (max_matching_variation cfg))))
     \<and> (search_mode cfg \<in> set [''auto'', ''fallback'']
          \<and> (\<exists>k<4. max_t k < f32_limit ops (min_matching_threshold cfg)
                       \<or> \<bar>f32 ops (all_max_t - max_t k)\<bar>
                            \<ge> f32_limit ops (max_matching_variation cfg)) \<longrightarrow>
           fst (apply_filter ops K cfg marker img)
             = (case fst (get_centres_global ops cfg image_eroded_sub (rescale ops marker s)) of
                  Inl e \<Rightarrow> Raised e
                | Inr None \<Rightarrow> Returned None
                | Inr (Some (centres, rects, avg_t)) \<Rightarrow>
                    Returned (Some (four_point_transform ops
                      (fst (draw_rects ops K cfg rects (img, image_eroded_sub))) centres))))"
proof -
  define om where "om = rescale ops marker s"
  obtain h w where shp: "shape ops om = (h, w)" by (cases "shape ops om")
  define loop where "loop = quadrant_loop ops cfg image_eroded_sub om quads origins all_max_t w h
      [0, 1, 2, 3] ([], [], 0, 0)"
  have qm: "quad_max ops quads om k = Inr (max_t k)" if "k < 4" for k
    using resp that by (simp add: quad_max_def om_def)
  have rej_iff: "quad_rejected ops cfg all_max_t (max_t k)
      \<longleftrightarrow> max_t k < f32_limit ops (min_matching_threshold cfg)
          \<or> \<bar>f32 ops (all_max_t - max_t k)\<bar> \<ge> f32_limit ops (max_matching_variation cfg)"
    for k by (simp add: quad_rejected_def)
  have loc: "localize ops cfg image_eroded_sub om quads origins all_max_t
      = (case loop of
              (Inl e, ev) \<Rightarrow> (Inl e, ev)
            | (Inr None, ev) \<Rightarrow> (Inr None, ev)
            | (Inr (Some (centres, rects, avg_t, sum_t)), ev) \<Rightarrow>
                if centres \<noteq> []
                then (Inr (Some (centres, rects, if sum_t \<noteq> 0 then f32 ops (sum_t / 4) else 0)),
                      ev @ [Info ''Matching Marker:  '', Info ''Optimal Scale: ''])
                else (Inr (Some (centres, rects, avg_t)), ev))"
    using mode shp by (simp add: localize_def loop_def)
  have af: "apply_filter ops K cfg marker img
     = (case localize ops cfg image_eroded_sub om quads origins all_max_t of
                     (Inl e, ev2) \<Rightarrow> (Raised e, ev @ ev2)
                   | (Inr None, ev2) \<Rightarrow> (Returned None, ev @ ev2)
                   | (Inr (Some (centres, rects, avg_t)), ev2) \<Rightarrow>
                       (let (img2, image_eroded_sub2) =
                              draw_rects ops K cfg rects (img, image_eroded_sub);
                            out = four_point_transform ops img2 centres
                        in (Returned (Some out),
                            ev @ ev2
                            @ (if avg_t \<noteq> 0 then [ThresholdCircle avg_t] else [])
                            @ [Transform img2 centres, SaveImg 2 image_eroded_sub2]
                            @ (if 2 \<le> show_image_level cfg \<and> show_image_level cfg < 4
                               then [Show ''Warped''] else []))))"
    by (simp add: apply_filter_def prep best om_def)
  have accepted: "fst (apply_filter ops K cfg marker img) \<noteq> Returned None"
    if none: "\<not> (\<exists>k<4. quad_rejected ops cfg all_max_t (max_t k))"
  proof -
    have "\<forall>k\<in>set [0, 1, 2, 3]. \<exists>m. quad_max ops quads om k = Inr m \<and> \<not> quad_rejected ops cfg all_max_t m"
      using qm none by auto
    from loop_accept_all[OF this, of image_eroded_sub origins w h "[]" "[]" 0 0]
    obtain cs rs sum' where l: "loop = (Inr (Some (cs, rs, 0, sum')), [])" "length cs = 4"
      by (auto simp: loop_def)
    hence "cs \<noteq> []" by auto
    with l show ?thesis
      by (simp add: af loc split: prod.splits)
  qed
  have rejected: "\<exists>sum'. loop = (if search_mode cfg \<in> set [''auto'', ''fallback'']
        then lift_global (get_centres_global ops cfg image_eroded_sub om) sum'
        else (Inr None, Error ''Error: No circle found in Quad''
                   # (if show_image_level cfg \<ge> 1
                      then [Show ''No markers'', Show ''res_Q''] else [])))"
    if some: "\<exists>k<4. quad_rejected ops cfg all_max_t (max_t k)"
  proof -
    from some have "\<exists>k\<in>set [0, 1, 2, 3 :: nat]. quad_rejected ops cfg all_max_t (max_t k)"
      by (auto simp: numeral_eq_Suc less_Suc_eq)
    from split_list_first_prop[OF this] obtain pre k post where
      sp: "[0, 1, 2, 3] = pre @ k # post" "quad_rejected ops cfg all_max_t (max_t k)"
          "\<forall>j\<in>set pre. \<not> quad_rejected ops cfg all_max_t (max_t j)"
      by blast
    have "k \<in> set [0, 1, 2, 3 :: nat]" unfolding sp(1) by simp
    hence k4: "k < 4" by fastforce
    have pre4: "\<forall>j\<in>set pre. j < 4"
    proof
      fix j assume "j \<in> set pre"
      hence "j \<in> set [0, 1, 2, 3 :: nat]" unfolding sp(1) by simp
      thus "j < 4" by fastforce
    qed
    have "\<forall>j\<in>set pre. \<exists>m. quad_max ops quads om j = Inr m \<and> \<not> quad_rejected ops cfg all_max_t m"
      using qm pre4 sp(3) by auto
    from loop_reject[OF this qm[OF k4] sp(2), of image_eroded_sub origins w h post "[]" "[]" 0 0]
    show ?thesis unfolding loop_def sp(1) .
  qed
  have strict: "fst (apply_filter ops K cfg marker img) = Returned None"
    if "search_mode cfg \<notin> set [''auto'', ''fallback'']"
       "\<exists>k<4. quad_rejected ops cfg all_max_t (max_t k)"
    using rejected[OF that(2)] that(1) by (auto simp: af loc)
  have fallback: "fst (apply_filter ops K cfg marker img)
             = (case fst (get_centres_global ops cfg image_eroded_sub om) of
                  Inl e \<Rightarrow> Raised e
                | Inr None \<Rightarrow> Returned None
                | Inr (Some (centres, rects, avg_t)) \<Rightarrow>
                    Returned (Some (four_point_transform ops
                      (fst (draw_rects ops K cfg rects (img, image_eroded_sub))) centres)))"
    if "search_mode cfg \<in> set [''auto'', ''fallback'']"
       "\<exists>k<4. quad_rejected ops cfg all_max_t (max_t k)"
  proof -
    from rejected[OF that(2)] that(1) obtain sum' where
      l: "loop = lift_global (get_centres_global ops cfg image_eroded_sub om) sum'"
      by auto
    obtain g gev where g: "get_centres_global ops cfg image_eroded_sub om = (g, gev)"
      by (cases "get_centres_global ops cfg image_eroded_sub om")
    show ?thesis
    proof (cases g)
      case (Inl e)
      then show ?thesis by (simp add: af loc l g lift_global_def)
    next
      case (Inr r)
      show ?thesis
      proof (cases r)
        case None
        with Inr show ?thesis by (simp add: af loc l g lift_global_def)
      next
        case (Some t)
        obtain c rs a where t: "t = (c, rs, a)" by (cases t)
        with Inr Some show ?thesis
          by (simp add: af loc l g lift_global_def Let_def split: prod.splits)
      qed
    qed
  qed
  show ?thesis
    using accepted strict fallback unfolding rej_iff om_def by blast
qed

lemma all_less_4: "(\<forall>k<4::nat. P k) \<longleftrightarrow> P 0 \<and> P 1 \<and> P 2 \<and> P 3"
proof -
  have "{..<4::nat} = {0, 1, 2, 3}" by auto
  hence "(\<forall>k<4::nat. P k) \<longleftrightarrow> (\<forall>k\<in>{0, 1, 2, 3}. P k)" by (metis lessThan_iff)
  thus ?thesis by simp
qed

lemma draw_rects_boxed:
  "draw_rects ops K cfg rects (img, w)
     = (boxed ops (MARKER_RECTANGLE_COLOR K) (DEFAULT_LINE_WIDTH K) img rects,
        boxed ops (if apply_erode_subtract cfg then ERODE_RECT_COLOR K else NORMAL_RECT_COLOR K)
          4 w rects)"
proof (induction rects arbitrary: img w)
  case Nil
  then show ?case by (simp add: boxed_def)
next
  case (Cons r rects)
  obtain x y rw rh where r: "r = (x, y, rw, rh)" by (cases r)
  show ?case using Cons by (simp add: r boxed_def Let_def)
qed

lemma sym_quadrants:
  "m \<notin> set [''global'', ''full'', ''all''] \<Longrightarrow>
   quadrants (sym_ops (\<lambda>_. (2, 2)) mt) sym_constants (default_config\<lparr>search_mode := m, max_matching_variation := v\<rparr>)
       (prepare (sym_ops (\<lambda>_. (2, 2)) mt) (default_config\<lparr>search_mode := m, max_matching_variation := v\<rparr>) Scan)
   = Inr (lined_scan,
       [Slice lined_scan 0 1 0 1, Slice lined_scan 0 1 1 2,
        Slice lined_scan 1 2 0 1, Slice lined_scan 1 2 1 2],
       [(0, 0), (1, 0), (0, 1), (1, 1)])"
  by (simp add: quadrants_def prepare_def sym_ops_def sym_constants_def default_config_def
        Let_def lined_scan_def numeral_3_eq_3)

lemma single_precision_prepare:
  "quadrants (single_precision ops) K cfg img = quadrants ops K cfg img"
  "prepare (single_precision ops) cfg img = prepare ops cfg img"
  by (simp_all add: quadrants_def prepare_def single_precision_def Let_def split: prod.splits)

lemma split_ops_simps [simp]:
  "shape (split_ops shp whole quarter) = shp"
  "rescale (split_ops shp whole quarter) = Rescaled"
  "matchTemplate (split_ops shp whole quarter) (Slice i a b c d) tpl = quarter"
  "matchTemplate (split_ops shp whole quarter) (Filled i a b c d e) tpl = whole"
  "f32 (split_ops shp whole quarter) = (\<lambda>x. x)"
  "f32_limit (split_ops shp whole quarter) = (\<lambda>x. x)"
  "fadd (split_ops shp whole quarter) = (+)"
  "rectangle (split_ops shp whole quarter) = Boxed"
  "four_point_transform (split_ops shp whole quarter) = Warped"
  by (simp_all add: split_ops_def sym_ops_def)

lemma two_level_simps [simp]:
  "shape (two_level_ops a b) = (\<lambda>_. (2, 2))"
  "rescale (two_level_ops a b) = Rescaled"
  "matchTemplate (two_level_ops a b) (Slice i y0 y1 x0 x1) tpl = of_rows [[b]]"
  "matchTemplate (two_level_ops a b) (Filled i y0 y1 x0 x1 c) tpl = of_rows [[a]]"
  "f32 (two_level_ops a b) = (\<lambda>x. x)"
  "f32_limit (two_level_ops a b) = (\<lambda>x. x)"
  by (simp_all add: two_level_ops_def)

lemma single_res_max: "res_max (of_rows [[t]]) = Inr t"
  by (simp add: res_max_def argmax_def score_at_def of_rows_def cells_def)

lemma tested_percents_variation:
  "tested_percents (default_config\<lparr>search_mode := m, max_matching_variation := v\<rparr>)
     = Inr [100, 94, 88, 82, 76, 70, 64, 58, 52, 46, 40]"
  by (simp add: tested_percents_def descent_per_step_def py_floordiv_def np_arange_def
        default_config_def upt_rec)

lemma r_frac: "round32 (1 / 2) = 1 / 2" "round32 (3 / 10) = 5033165 / 16777216"
  using bit_length_eqI[of 1 1] bit_length_eqI[of 3 2]
  by (simp_all add: round32_def exponent2_def round_half_even_def Let_def)

lemma corner_peaks_max: "res_max (peak_response 3 3 corner_peaks) = Inr (9 / 10)"
proof -
  have "res_max (peak_response 3 3 (((9 / 10, 0, 0) # tl corner_peaks) @ []))
          = Inr (fst (9 / 10 :: real, 0 :: nat, 0 :: nat))"
  proof (rule peak_response_max[where thr = "3 / 10" and sx = 1 and sy = 1])
    show "distinct (map location (((9 / 10, 0, 0) # tl corner_peaks) @ []))"
      by (simp add: corner_peaks_def location_def)
    show "\<forall>d\<in>set (tl corner_peaks). fst d < fst (9 / 10 :: real, 0 :: nat, 0 :: nat)"
      by (simp add: corner_peaks_def)
  qed (simp_all add: location_def)
  thus ?thesis by (simp add: corner_peaks_def)
qed

lemma corner_peaks_scan:
  "\<exists>r'. collect_candidates max_candidates (3 / 10) (Suc 0) (Suc 0)
           (peak_response 3 3 corner_peaks) [] = Inr (r', corner_peaks)"
proof -
  have "\<exists>r'. collect_candidates max_candidates (3 / 10) 1 1
               (peak_response 3 3 (corner_peaks @ [])) [] = Inr (r', corner_peaks)"
  proof (rule scan_peak_response)
    show "length corner_peaks < max_candidates"
      by (simp add: max_candidates_def corner_peaks_def)
    show "distinct (map location (corner_peaks @ []))"
      by (simp add: corner_peaks_def location_def)
    show "\<forall>c\<in>set corner_peaks. snd (location c) < 3 \<and> fst (location c) < 3"
      by (simp add: corner_peaks_def location_def)
    show "\<forall>c\<in>set corner_peaks. 3 / 10 \<le> fst c" by (simp add: corner_peaks_def)
    show "sorted_wrt (>) (map fst corner_peaks)" by (simp add: corner_peaks_def)
    show "sorted_wrt (\<lambda>c d. \<not> within_window 1 1 c (location d)) corner_peaks"
      by (simp add: corner_peaks_def within_window_def location_def)
  qed simp_all
  thus ?thesis by simp
qed

lemma corner_global:
  "get_centres_global (split_ops (\<lambda>_. (2, 2)) (peak_response 3 3 corner_peaks) quarter)
     (default_config\<lparr>search_mode := m, max_matching_variation := v\<rparr>) lined_scan
     (Rescaled MarkerImg 1)
   = (Inr (Some ([(1, 1), (3, 1), (1, 3), (3, 3)],
                 [(0, 0, 2, 2), (2, 0, 2, 2), (0, 2, 2, 2), (2, 2, 2, 2)], 3 / 4)), [])"
proof -
  from corner_peaks_scan obtain r' where
    scan: "collect_candidates max_candidates (3 / 10) (Suc 0) (Suc 0)
             (peak_response 3 3 corner_peaks) [] = Inr (r', corner_peaks)"
    by blast
  have thr: "min_matching_threshold (default_config\<lparr>search_mode := m, max_matching_variation := v\<rparr>)
               = 3 / 10"
    by (simp add: default_config_def)
  have len: "length corner_peaks = 4" by (simp add: corner_peaks_def)
  have comb: "combinations [a, b, c, d] 4 = [[a, b, c, d]]" for a b c d :: candidate
    by (simp add: eval_nat_numeral)
  show ?thesis
    by (simp add: get_centres_global_def lined_scan_def suppress_def thr scan len)
       (simp add: corner_peaks_def comb centre_of_def rect_of_def combo_score_def)
qed

text \<open>
  C4 (as stated) fails at the boundary: a quadrant whose score 1/2 is above the
  threshold and differs from the whole-image score 1 by the maximal variation 1/2, not
  by more, is rejected. The three numbers are single-precision numbers, and so is the
  difference.
\<close>

theorem quadrant_rejection_counterexample:
  "getBestMatch (single_precision (two_level_ops 1 (1 / 2)))
      (default_config\<lparr>search_mode := ''quadrants'', max_matching_variation := 1 / 2\<rparr>)
      MarkerImg lined_scan = (Inr (Some 1, 1), [])
   \<and> res_max (matchTemplate (single_precision (two_level_ops 1 (1 / 2)))
        (Slice lined_scan 0 1 0 1) (Rescaled MarkerImg 1)) = Inr (1 / 2)
   \<and> \<not> (1 / 2 < min_matching_threshold
                   (default_config\<lparr>search_mode := ''quadrants'', max_matching_variation := 1 / 2\<rparr>)
         \<or> \<bar>1 - 1 / 2\<bar> > max_matching_variation
                   (default_config\<lparr>search_mode := ''quadrants'', max_matching_variation := 1 / 2\<rparr>))
   \<and> round32 1 = 1 \<and> round32 (1 / 2) = 1 / 2 \<and> round32 (1 - 1 / 2) = 1 / 2
   \<and> apply_filter (single_precision (two_level_ops 1 (1 / 2))) sym_constants
         (default_config\<lparr>search_mode := ''quadrants'', max_matching_variation := 1 / 2\<rparr>)
         MarkerImg Scan
       = (Returned None, [Error ''Error: No circle found in Quad''])"
proof -
  let ?ops = "single_precision (two_level_ops 1 (1 / 2))"
  let ?cfg = "default_config\<lparr>search_mode := ''quadrants'', max_matching_variation := 1 / 2\<rparr>"
  have q: "quadrants ?ops sym_constants ?cfg (prepare ?ops ?cfg Scan)
     = Inr (lined_scan,
       [Slice lined_scan 0 1 0 1, Slice lined_scan 0 1 1 2,
        Slice lined_scan 1 2 0 1, Slice lined_scan 1 2 1 2],
       [(0, 0), (1, 0), (0, 1), (1, 1)])"
    unfolding single_precision_prepare two_level_ops_def split_ops_def
    by (rule sym_quadrants) simp
  have thr: "min_matching_threshold ?cfg = 3 / 10" "max_matching_variation ?cfg = 1 / 2"
    "show_image_level ?cfg = 0" "search_mode ?cfg = ''quadrants''"
    by (simp_all add: default_config_def)
  have b: "getBestMatch ?ops ?cfg MarkerImg lined_scan = (Inr (Some 1, 1), [])"
    by (simp add: getBestMatch_def tested_percents_variation lined_scan_def
          single_res_max thr r_frac)
  have r: "res_max (matchTemplate ?ops (Slice lined_scan 0 1 0 1) (Rescaled MarkerImg 1))
       = Inr (1 / 2)"
    by (simp add: single_res_max)
  have t: "\<not> (1 / 2 < min_matching_threshold ?cfg \<or> \<bar>1 - 1 / 2\<bar> > max_matching_variation ?cfg)"
    by (simp add: thr)
  have rd: "round32 1 = 1" "round32 (1 / 2) = 1 / 2" "round32 (1 - 1 / 2) = 1 / 2"
    by (simp_all add: r_small r_frac)
  have rej: "quad_rejected ?ops ?cfg 1 (1 / 2)"
    by (simp add: quad_rejected_def thr r_frac)
  have a: "apply_filter ?ops sym_constants ?cfg MarkerImg Scan
       = (Returned None, [Error ''Error: No circle found in Quad''])"
    by (simp add: apply_filter_def q b localize_def Let_def single_res_max rej thr)
  show ?thesis
    by (intro conjI b r t rd a)
qed

lemma quarters_res_max:
  "\<forall>k<4. res_max (matchTemplate (split_ops shp whole (of_rows [[b]]))
       ([Slice lined_scan 0 1 0 1, Slice lined_scan 0 1 1 2,
         Slice lined_scan 1 2 0 1, Slice lined_scan 1 2 1 2] ! k)
       (rescale (split_ops shp whole (of_rows [[b]])) MarkerImg 1)) = Inr b"
  unfolding all_less_4 by (simp add: single_res_max)

text \<open>
  A quadrant of score 1/2 beside the whole-image score 1, with the maximal variation
  1/2, in strict quadrant mode; and quadrants of score 1/5, below the threshold, in mode
  \<open>auto\<close>, where the global search finds the four markers of the whole image.
\<close>

theorem quadrant_rejection_witness:
  "search_mode (default_config\<lparr>search_mode := ''quadrants'', max_matching_variation := 1 / 2\<rparr>)
      \<notin> set [''global'', ''full'', ''all'']
   \<and> search_mode (default_config\<lparr>search_mode := ''quadrants'', max_matching_variation := 1 / 2\<rparr>)
      \<notin> set [''auto'', ''fallback'']
   \<and> getBestMatch (two_level_ops 1 (1 / 2))
         (default_config\<lparr>search_mode := ''quadrants'', max_matching_variation := 1 / 2\<rparr>)
         MarkerImg lined_scan = (Inr (Some 1, 1), [])
   \<and> fst (apply_filter (two_level_ops 1 (1 / 2)) sym_constants
         (default_config\<lparr>search_mode := ''quadrants'', max_matching_variation := 1 / 2\<rparr>)
         MarkerImg Scan) = Returned None
   \<and> search_mode (default_config\<lparr>search_mode := ''auto'', max_matching_variation := 41 / 100\<rparr>)
      \<in> set [''auto'', ''fallback'']
   \<and> getBestMatch (split_ops (\<lambda>_. (2, 2)) (peak_response 3 3 corner_peaks) (of_rows [[1 / 5]]))
         (default_config\<lparr>search_mode := ''auto'', max_matching_variation := 41 / 100\<rparr>)
         MarkerImg lined_scan = (Inr (Some 1, 9 / 10), [])
   \<and> fst (apply_filter (split_ops (\<lambda>_. (2, 2)) (peak_response 3 3 corner_peaks) (of_rows [[1 / 5]]))
         sym_constants (default_config\<lparr>search_mode := ''auto'', max_matching_variation := 41 / 100\<rparr>)
         MarkerImg Scan)
       = Returned (Some (Warped
           (boxed (split_ops (\<lambda>_. (2, 2)) (peak_response 3 3 corner_peaks) (of_rows [[1 / 5]]))
              150 2 Scan [(0, 0, 2, 2), (2, 0, 2, 2), (0, 2, 2, 2), (2, 2, 2, 2)])
           [(1, 1), (3, 1), (1, 3), (3, 3)]))"
proof -
  let ?ops = "two_level_ops 1 (1 / 2)"
  let ?gops = "split_ops (\<lambda>_. (2, 2)) (peak_response 3 3 corner_peaks) (of_rows [[1 / 5]])"
  let ?q = "default_config\<lparr>search_mode := ''quadrants'', max_matching_variation := 1 / 2\<rparr>"
  let ?a = "default_config\<lparr>search_mode := ''auto'', max_matching_variation := 41 / 100\<rparr>"
  let ?quads = "[Slice lined_scan 0 1 0 1, Slice lined_scan 0 1 1 2,
        Slice lined_scan 1 2 0 1, Slice lined_scan 1 2 1 2]"
  have prep_q: "quadrants ?ops sym_constants ?q (prepare ?ops ?q Scan)
     = Inr (lined_scan, ?quads, [(0, 0), (1, 0), (0, 1), (1, 1)])"
    unfolding two_level_ops_def split_ops_def by (rule sym_quadrants) simp
  have prep_a: "quadrants ?gops sym_constants ?a (prepare ?gops ?a Scan)
     = Inr (lined_scan, ?quads, [(0, 0), (1, 0), (0, 1), (1, 1)])"
    unfolding split_ops_def by (rule sym_quadrants) simp
  have mode_q: "search_mode ?q \<notin> set [''global'', ''full'', ''all'']"
    and strict: "search_mode ?q \<notin> set [''auto'', ''fallback'']"
    and mode_a: "search_mode ?a \<notin> set [''global'', ''full'', ''all'']"
    and fallback: "search_mode ?a \<in> set [''auto'', ''fallback'']"
    by simp_all
  have thr: "min_matching_threshold ?q = 3 / 10" "max_matching_variation ?q = 1 / 2"
    "min_matching_threshold ?a = 3 / 10" "max_matching_variation ?a = 41 / 100"
    by (simp_all add: default_config_def)
  have best_q: "getBestMatch ?ops ?q MarkerImg lined_scan = (Inr (Some 1, 1), [])"
    by (simp add: getBestMatch_def tested_percents_variation lined_scan_def
          single_res_max thr)
  have best_a: "getBestMatch ?gops ?a MarkerImg lined_scan = (Inr (Some 1, 9 / 10), [])"
    by (simp add: getBestMatch_def tested_percents_variation lined_scan_def
          corner_peaks_max thr)
  have rej_q: "\<exists>k<4::nat. (1 / 2 :: real) < f32_limit ?ops (min_matching_threshold ?q)
            \<or> \<bar>f32 ?ops (1 - 1 / 2)\<bar> \<ge> f32_limit ?ops (max_matching_variation ?q)"
    by (rule exI[of _ 0]) (simp add: thr)
  have rej_a: "\<exists>k<4::nat. (1 / 5 :: real) < f32_limit ?gops (min_matching_threshold ?a)
            \<or> \<bar>f32 ?gops (9 / 10 - 1 / 5)\<bar> \<ge> f32_limit ?gops (max_matching_variation ?a)"
    by (rule exI[of _ 0]) (simp add: thr)
  note q = quadrant_rejection[OF prep_q mode_q best_q
      quarters_res_max[of "\<lambda>_. (2, 2)" "of_rows [[1]]" "1 / 2", folded two_level_ops_def]]
  note a = quadrant_rejection[OF prep_a mode_a best_a quarters_res_max]
  from q strict rej_q have 1: "fst (apply_filter ?ops sym_constants ?q MarkerImg Scan) = Returned None"
    by blast
  from a fallback rej_a
  have "fst (apply_filter ?gops sym_constants ?a MarkerImg Scan)
       = (case fst (get_centres_global ?gops ?a lined_scan (rescale ?gops MarkerImg 1)) of
            Inl e \<Rightarrow> Raised e
          | Inr None \<Rightarrow> Returned None
          | Inr (Some (centres, rects, avg_t)) \<Rightarrow>
              Returned (Some (four_point_transform ?gops
                (fst (draw_rects ?gops sym_constants ?a rects (Scan, lined_scan))) centres)))"
    by blast
  hence 2: "fst (apply_filter ?gops sym_constants ?a MarkerImg Scan)
       = Returned (Some (Warped
           (boxed ?gops 150 2 Scan [(0, 0, 2, 2), (2, 0, 2, 2), (0, 2, 2, 2), (2, 2, 2, 2)])
           [(1, 1), (3, 1), (1, 3), (3, 3)]))"
    by (simp add: corner_global draw_rects_boxed sym_constants_def)
  show ?thesis
    by (intro conjI mode_q strict best_q 1 fallback best_a 2)
qed

subsection \<open>The whole filter\<close>







end
